theory Spec2Isabelle
  imports Main "HOL-Library.Word" "HOL-Library.Signed_Division"
begin

section \<open>TDLS auto-mode: data model\<close>

text \<open>
  The embedding follows \<^verbatim>\<open>wpa_supplicant/tdls_auto_mode.c\<close> (the peer registry and
  its four timer handlers) and \<^verbatim>\<open>wpa_supplicant/tdls_auto_glue.c\<close> (the supplicant
  glue). C types are kept: \<^verbatim>\<open>unsigned int\<close> and \<^verbatim>\<open>u32\<close> are 32-bit words whose
  arithmetic wraps; \<^verbatim>\<open>int\<close> values that are only stored and compared (RSSI, the RSSI
  thresholds) are integers; \<^verbatim>\<open>int\<close> flags that only ever hold 0 or 1 are booleans.
  \<^verbatim>\<open>fast_attempts\<close> is an \<^verbatim>\<open>int\<close> that is incremented only when it is at most 20,
  so the increment never overflows and it is an integer as well.
\<close>

type_synonym u32 = "32 word"

text \<open>\<^verbatim>\<open>u8 addr[ETH_ALEN]\<close>: six bytes, compared with \<^verbatim>\<open>os_memcmp\<close> over all six.\<close>

type_synonym macaddr = "48 word"

text \<open>\<^verbatim>\<open>struct os_reltime\<close>; \<^verbatim>\<open>os_time_t\<close> is \<^verbatim>\<open>long\<close>, modelled without a bound.\<close>

record os_reltime =
  sec :: int
  usec :: int

record tdls_auto_peer =
  addr :: macaddr
  connected :: bool
  rssi :: int
  low_rssi_vals :: u32
  fast_attempts :: int
  data_rate :: u32
  last_query_time :: os_reltime
  last_rx_bytes :: u32
  last_tx_bytes :: u32
  incoming_peer :: bool

text \<open>The configuration values of \<^verbatim>\<open>struct wpas_tdls_auto_ctx\<close> (tdls_auto_mode.h).\<close>

record wpas_tdls_auto_ctx =
  tdls_auto_rssi_connect_threshold :: int
  tdls_auto_data_connect_threshold :: u32
  tdls_auto_fast_connect_period :: u32
  tdls_auto_slow_connect_period :: u32
  tdls_auto_data_teardown_threshold :: u32
  tdls_auto_data_teardown_period :: u32
  tdls_auto_rssi_teardown_threshold :: int
  tdls_auto_rssi_teardown_period :: u32
  tdls_auto_rssi_teardown_count :: u32
  tdls_auto_max_connected_peers :: u32

text \<open>
  The function pointers of \<^verbatim>\<open>struct wpas_tdls_auto_ctx\<close> change the world outside the
  controller. Those that act (connect, disconnect, send_discovery, monitor_traffic) are
  recorded, in the order they are made, in the trace \<open>calls\<close>. What the outside world
  answers during one callback of the event loop is a \<open>driver\<close> record:
  \<^item> \<open>get_rssi\<close> and \<open>monitor_traffic\<close> give the capability's return value;
  \<^item> \<open>get_sta_bytes a\<close> is \<open>Some (tx, rx)\<close> when the capability returns 0 and stores
    the two counters, \<open>None\<close> when it returns non-zero;
  \<^item> \<open>os_get_reltime a\<close> is the monotonic clock read when the peer \<open>a\<close> is sampled;
  \<^item> \<open>os_zalloc_ok n\<close> tells whether the \<open>n\<close>-th \<^verbatim>\<open>os_zalloc\<close> of the callback
    (counted from 0) returns memory;
  \<^item> \<open>disconnect_reenters a\<close> tells whether the disconnect capability, called for
    \<open>a\<close>, calls \<^verbatim>\<open>tdls_auto_peer_disconnected\<close> back before it returns (the header:
    "Can return back to this layer via the tdls_auto_peer_disconnected callback").
\<close>

datatype call =
  Connect macaddr
  | Disconnect macaddr
  | Send_discovery macaddr
  | Monitor_traffic macaddr bool

record driver =
  get_rssi :: "macaddr \<Rightarrow> int"
  monitor_traffic :: "macaddr \<Rightarrow> bool \<Rightarrow> int"
  get_sta_bytes :: "macaddr \<Rightarrow> (u32 \<times> u32) option"
  os_get_reltime :: "macaddr \<Rightarrow> os_reltime"
  os_zalloc_ok :: "nat \<Rightarrow> bool"
  disconnect_reenters :: "macaddr \<Rightarrow> bool"

text \<open>The four timeout handlers the controller registers with the event loop.\<close>

datatype eloop_timeout_handler =
  Fast_connect_timeout
  | Slow_connect_timeout
  | Data_teardown_timeout
  | Rssi_teardown_timeout

text \<open>
  \<^verbatim>\<open>struct tdls_auto_mode_ctx\<close>: the intrusive list \<open>peers\<close> in iteration order (first
  element first), the two counters and the configuration. Two more fields thread the
  outside world through the same state: \<open>timeouts h\<close> is the pending timeout of handler
  \<open>h\<close> in microseconds (\<open>None\<close>: nothing pending), \<open>calls\<close> is the trace of capability
  calls made so far.
\<close>

record tdls_auto_mode_ctx =
  peers :: "tdls_auto_peer list"
  peer_count :: u32
  conn_peer_count :: u32
  extn :: wpas_tdls_auto_ctx
  timeouts :: "eloop_timeout_handler \<Rightarrow> u32 option"
  calls :: "call list"

definition TDLS_AUTO_MAX_FAST_CONN_ATTEMPTS :: int where
  "TDLS_AUTO_MAX_FAST_CONN_ATTEMPTS = 20"

definition TDLS_AUTO_MIN_SAMPLE_TIME_DIFF_MSEC :: int where
  "TDLS_AUTO_MIN_SAMPLE_TIME_DIFF_MSEC = 100"

section \<open>Registry primitives\<close>

text \<open>\<^verbatim>\<open>tdls_auto_find_peer\<close>: the first peer of the list with that address.\<close>

primrec find_in :: "tdls_auto_peer list \<Rightarrow> macaddr \<Rightarrow> tdls_auto_peer option" where
  "find_in [] a = None"
| "find_in (p # ps) a = (if addr p = a then Some p else find_in ps a)"

definition tdls_auto_find_peer :: "tdls_auto_mode_ctx \<Rightarrow> macaddr \<Rightarrow> tdls_auto_peer option" where
  "tdls_auto_find_peer s a = find_in (peers s) a"

text \<open>
  A write through the pointer \<^verbatim>\<open>tdls_auto_find_peer\<close> returned, while the peer is in
  the list: the first peer with the address is replaced.
\<close>

primrec update_in :: "macaddr \<Rightarrow> (tdls_auto_peer \<Rightarrow> tdls_auto_peer) \<Rightarrow> tdls_auto_peer list \<Rightarrow> tdls_auto_peer list" where
  "update_in a f [] = []"
| "update_in a f (p # ps) = (if addr p = a then f p # ps else p # update_in a f ps)"

definition peer_update :: "macaddr \<Rightarrow> (tdls_auto_peer \<Rightarrow> tdls_auto_peer) \<Rightarrow> tdls_auto_mode_ctx \<Rightarrow> tdls_auto_mode_ctx" where
  "peer_update a f s = s\<lparr>peers := update_in a f (peers s)\<rparr>"

text \<open>\<^verbatim>\<open>dl_list_del\<close> of the peer found for the address.\<close>

primrec delete_in :: "macaddr \<Rightarrow> tdls_auto_peer list \<Rightarrow> tdls_auto_peer list" where
  "delete_in a [] = []"
| "delete_in a (p # ps) = (if addr p = a then ps else p # delete_in a ps)"

definition emit :: "call \<Rightarrow> tdls_auto_mode_ctx \<Rightarrow> tdls_auto_mode_ctx" where
  "emit c s = s\<lparr>calls := calls s @ [c]\<rparr>"

text \<open>
  \<^verbatim>\<open>tdls_auto_set_timer\<close> cancels the pending timeout of the handler and registers
  \<^verbatim>\<open>eloop_register_timeout(0, 1000 * msecs, ...)\<close>; \<^verbatim>\<open>tdls_auto_cancel_timer\<close> cancels.
\<close>

definition tdls_auto_set_timer :: "tdls_auto_mode_ctx \<Rightarrow> u32 \<Rightarrow> eloop_timeout_handler \<Rightarrow> tdls_auto_mode_ctx" where
  "tdls_auto_set_timer s msecs h = s\<lparr>timeouts := (timeouts s)(h := Some (1000 * msecs))\<rparr>"

definition tdls_auto_cancel_timer :: "tdls_auto_mode_ctx \<Rightarrow> eloop_timeout_handler \<Rightarrow> tdls_auto_mode_ctx" where
  "tdls_auto_cancel_timer s h = s\<lparr>timeouts := (timeouts s)(h := None)\<rparr>"

text \<open>\<^verbatim>\<open>os_zalloc(sizeof(*peer))\<close> followed by the copy of the address.\<close>

definition zeroed_peer :: "macaddr \<Rightarrow> tdls_auto_peer" where
  "zeroed_peer a = \<lparr>addr = a, connected = False, rssi = 0, low_rssi_vals = 0,
     fast_attempts = 0, data_rate = 0, last_query_time = \<lparr>sec = 0, usec = 0\<rparr>,
     last_rx_bytes = 0, last_tx_bytes = 0, incoming_peer = False\<rparr>"

text \<open>
  \<^verbatim>\<open>tdls_auto_peer_add_to_list\<close>: \<open>None\<close> is the NULL return. \<^verbatim>\<open>dl_list_add\<close> links the
  new peer right after the list head, so it is the first in iteration order.
\<close>

definition tdls_auto_peer_add_to_list :: "driver \<Rightarrow> tdls_auto_mode_ctx \<Rightarrow> macaddr \<Rightarrow> tdls_auto_mode_ctx option" where
  "tdls_auto_peer_add_to_list e s a =
     (if \<not> os_zalloc_ok e 0 then None
      else Some (s\<lparr>peers := zeroed_peer a # peers s, peer_count := peer_count s + 1\<rparr>))"

section \<open>Rate sampling\<close>

text \<open>
  Modelled from the spec: \<^verbatim>\<open>os_reltime_sub\<close> (utils/os.h) is not among the sources; it
  is the time since \<open>b\<close>, in seconds and microseconds, with a borrow from the seconds
  when the microseconds would be negative.
\<close>

definition os_reltime_sub :: "os_reltime \<Rightarrow> os_reltime \<Rightarrow> os_reltime" where
  "os_reltime_sub a b =
     (if usec a - usec b < 0
      then \<lparr>sec = sec a - sec b - 1, usec = usec a - usec b + 1000000\<rparr>
      else \<lparr>sec = sec a - sec b, usec = usec a - usec b\<rparr>)"

text \<open>
  \<^verbatim>\<open>diff.sec * 1000 + diff.usec / 1000\<close>, the time since \<open>prev\<close> in milliseconds as an
  integer of any size: C division truncates towards zero.
\<close>

definition elapsed_msec :: "os_reltime \<Rightarrow> os_reltime \<Rightarrow> int" where
  "elapsed_msec now prev =
     (let diff = os_reltime_sub now prev
      in sec diff * 1000 + usec diff sdiv 1000)"

text \<open>
  \<^verbatim>\<open>delta_msec\<close> is this value stored in an \<^verbatim>\<open>int\<close>: narrowed to 32 bits, two's
  complement. The two agree when the elapsed time is within the range of an \<^verbatim>\<open>int\<close>.
\<close>

definition delta_msec_of :: "os_reltime \<Rightarrow> os_reltime \<Rightarrow> int" where
  "delta_msec_of now prev = sint (word_of_int (elapsed_msec now prev) :: 32 word)"

text \<open>
  \<^verbatim>\<open>tdls_auto_get_peer_data_rate\<close>, on the peer it is given. \<^verbatim>\<open>delta_bits\<close> is a
  \<^verbatim>\<open>u32\<close>; in \<^verbatim>\<open>delta_bits / delta_msec * 1000\<close> the \<^verbatim>\<open>int\<close> is converted to unsigned,
  the division is the unsigned one and comes before the multiplication, which wraps.
\<close>

definition tdls_auto_get_peer_data_rate :: "driver \<Rightarrow> tdls_auto_peer \<Rightarrow> tdls_auto_peer" where
  "tdls_auto_get_peer_data_rate e p =
     (let now = os_get_reltime e (addr p);
          delta_msec = delta_msec_of now (last_query_time p)
      in if delta_msec < TDLS_AUTO_MIN_SAMPLE_TIME_DIFF_MSEC then p
         else (case get_sta_bytes e (addr p) of
             None \<Rightarrow> p\<lparr>data_rate := 0\<rparr>
           | Some (tx_bytes, rx_bytes) \<Rightarrow>
               (let delta_bits = (rx_bytes - last_rx_bytes p) * 8
                                 + (tx_bytes - last_tx_bytes p) * 8
                in p\<lparr>last_rx_bytes := rx_bytes,
                     last_tx_bytes := tx_bytes,
                     last_query_time := now,
                     data_rate := delta_bits div (word_of_int delta_msec) * 1000\<rparr>)))"

section \<open>Discovery response\<close>

text \<open>
  \<^verbatim>\<open>tdls_auto_discovery_response\<close> for a controller that exists (the NULL check is the
  glue's). The RSSI is stored before the test of \<open>connected\<close>. The connect capability
  starts a TDLS setup whose outcome arrives later as a \<open>connected\<close> event.
\<close>

definition tdls_auto_discovery_response :: "driver \<Rightarrow> tdls_auto_mode_ctx \<Rightarrow> macaddr \<Rightarrow> int \<Rightarrow> tdls_auto_mode_ctx" where
  "tdls_auto_discovery_response e s a r =
     (case tdls_auto_find_peer s a of
        None \<Rightarrow> s
      | Some p \<Rightarrow>
          (let s1 = peer_update a (\<lambda>q. q\<lparr>rssi := r\<rparr>) s
           in if connected p then s1
              else if r \<le> tdls_auto_rssi_connect_threshold (extn s1) then s1
              else (let s2 = peer_update a (tdls_auto_get_peer_data_rate e) s1;
                        p2 = tdls_auto_get_peer_data_rate e (p\<lparr>rssi := r\<rparr>)
                    in if data_rate p2 < tdls_auto_data_connect_threshold (extn s2) then s2
                       else if conn_peer_count s2 \<ge> tdls_auto_max_connected_peers (extn s2)
                       then s2
                       else emit (Connect (addr p2)) s2)))"

section \<open>Adding and removing peers\<close>

text \<open>
  \<^verbatim>\<open>tdls_auto_add_peer\<close>: the state it leaves and whether it returned a peer. The new
  peer is the first of the list and the only one with its address when the caller
  looked the address up without success, which both callers do.
\<close>

definition tdls_auto_add_peer :: "driver \<Rightarrow> tdls_auto_mode_ctx \<Rightarrow> macaddr \<Rightarrow> tdls_auto_mode_ctx \<times> bool" where
  "tdls_auto_add_peer e s a =
     (let s1 = emit (Monitor_traffic a True) (emit (Monitor_traffic a False) s)
      in if monitor_traffic e a True \<noteq> 0 then (s1, False)
         else (case tdls_auto_peer_add_to_list e s1 a of
             None \<Rightarrow> (emit (Monitor_traffic a False) s1, False)
           | Some s2 \<Rightarrow>
               (let s3 = tdls_auto_set_timer s2 (tdls_auto_fast_connect_period (extn s2))
                           Fast_connect_timeout
                in if peer_count s3 \<noteq> 1 then (s3, True)
                   else (tdls_auto_set_timer s3 (tdls_auto_slow_connect_period (extn s3))
                           Slow_connect_timeout, True))))"

text \<open>\<^verbatim>\<open>tdls_auto_mode_start\<close>: the state and the return value (0 or -1).\<close>

definition tdls_auto_mode_start :: "driver \<Rightarrow> tdls_auto_mode_ctx \<Rightarrow> macaddr \<Rightarrow> tdls_auto_mode_ctx \<times> int" where
  "tdls_auto_mode_start e s a =
     (case tdls_auto_find_peer s a of
        Some p \<Rightarrow> (s, 0)
      | None \<Rightarrow>
          (case tdls_auto_add_peer e s a of
             (s1, False) \<Rightarrow> (s1, - 1)
           | (s1, True) \<Rightarrow> (s1, 0)))"

text \<open>\<^verbatim>\<open>tdls_auto_peer_free\<close> of the peer found for the address.\<close>

definition tdls_auto_peer_free :: "tdls_auto_mode_ctx \<Rightarrow> macaddr \<Rightarrow> tdls_auto_mode_ctx" where
  "tdls_auto_peer_free s a =
     (let s1 = emit (Monitor_traffic a False) s
      in s1\<lparr>peers := delete_in a (peers s1), peer_count := peer_count s1 - 1\<rparr>)"

text \<open>
  The disconnect capability, \<^verbatim>\<open>tdls_auto_mode_stop\<close> and
  \<^verbatim>\<open>tdls_auto_peer_disconnected\<close> call one another: the capability may deliver the
  \<open>disconnected\<close> event before it returns, \<open>disconnected\<close> stops an incoming peer, and
  \<open>stop\<close> disconnects a connected peer. \<open>stop\<close> clears \<open>incoming_peer\<close> before the
  capability call and \<open>disconnected\<close> clears \<open>connected\<close> before it calls \<open>stop\<close>,
  which bounds the recursion.

  \<^verbatim>\<open>wpas_tdls_auto_disconnect\<close> is the glue's capability. It calls
  \<^verbatim>\<open>wpa_tdls_teardown_link\<close>, which is not among the sources: whether that call
  delivers the event before it returns is the driver's answer \<open>disconnect_reenters\<close>.
\<close>

function wpas_tdls_auto_disconnect :: "driver \<Rightarrow> tdls_auto_mode_ctx \<Rightarrow> macaddr \<Rightarrow> tdls_auto_mode_ctx"
  and tdls_auto_mode_stop :: "driver \<Rightarrow> tdls_auto_mode_ctx \<Rightarrow> macaddr \<Rightarrow> tdls_auto_mode_ctx"
  and tdls_auto_peer_disconnected :: "driver \<Rightarrow> tdls_auto_mode_ctx \<Rightarrow> macaddr \<Rightarrow> tdls_auto_mode_ctx"
where
  "wpas_tdls_auto_disconnect e s a =
     (if disconnect_reenters e a
      then tdls_auto_peer_disconnected e (emit (Disconnect a) s) a
      else emit (Disconnect a) s)"
| "tdls_auto_mode_stop e s a =
     (case tdls_auto_find_peer s a of
        None \<Rightarrow> s
      | Some p \<Rightarrow>
          (let s1 = (if connected p
                     then wpas_tdls_auto_disconnect e
                            (peer_update a (\<lambda>q. q\<lparr>incoming_peer := False\<rparr>) s) a
                     else s);
               s2 = tdls_auto_peer_free s1 a
           in if peer_count s2 = 0
              then tdls_auto_cancel_timer (tdls_auto_cancel_timer s2 Fast_connect_timeout)
                     Slow_connect_timeout
              else s2))"
| "tdls_auto_peer_disconnected e s a =
     (case tdls_auto_find_peer s a of
        None \<Rightarrow> s
      | Some p \<Rightarrow>
          (let s1 = peer_update a (\<lambda>q. q\<lparr>connected := False\<rparr>) s;
               s2 = (if incoming_peer p
                     then tdls_auto_mode_stop e s1 a
                     else tdls_auto_set_timer
                            (peer_update a (\<lambda>q. q\<lparr>low_rssi_vals := 0, fast_attempts := 0\<rparr>) s1)
                            (tdls_auto_fast_connect_period (extn s1)) Fast_connect_timeout)
           in s2\<lparr>conn_peer_count := conn_peer_count s2 - 1\<rparr>))"
  by pat_completeness auto
termination
proof -
  have written: "find_in (update_in a f ps) a = map_option f (find_in ps a)"
    if "\<And>q. addr (f q) = addr q" for a f ps
    using that by (induction ps) auto
  show ?thesis
    by (relation "measure (\<lambda>x. case x of
          Inl (e, s, a) \<Rightarrow>
            (case tdls_auto_find_peer s a of None \<Rightarrow> 1
             | Some p \<Rightarrow> if incoming_peer p then 3 else 1)
        | Inr (Inl (e, s, a)) \<Rightarrow>
            (case tdls_auto_find_peer s a of None \<Rightarrow> 0
             | Some p \<Rightarrow> if connected p then 2 else 0)
        | Inr (Inr (e, s, a)) \<Rightarrow>
            (case tdls_auto_find_peer s a of None \<Rightarrow> 0
             | Some p \<Rightarrow> if incoming_peer p then 2 else 0))")
       (auto simp: tdls_auto_find_peer_def peer_update_def emit_def written
          split: option.splits)
qed

declare wpas_tdls_auto_disconnect.simps [simp del]
declare tdls_auto_mode_stop.simps [simp del]
declare tdls_auto_peer_disconnected.simps [simp del]

section \<open>The connected event\<close>

text \<open>
  \<^verbatim>\<open>tdls_auto_peer_connected\<close>. The counter is incremented first, before the lookup
  and before the peer is created.
\<close>

definition tdls_auto_peer_connected :: "driver \<Rightarrow> tdls_auto_mode_ctx \<Rightarrow> macaddr \<Rightarrow> tdls_auto_mode_ctx" where
  "tdls_auto_peer_connected e s a =
     (let s0 = s\<lparr>conn_peer_count := conn_peer_count s + 1\<rparr>
      in case (case tdls_auto_find_peer s0 a of
                 Some p \<Rightarrow> (s0, True)
               | None \<Rightarrow>
                   (case tdls_auto_add_peer e s0 a of
                      (s', False) \<Rightarrow> (s', False)
                    | (s', True) \<Rightarrow>
                        (peer_update a (\<lambda>q. q\<lparr>incoming_peer := True\<rparr>) s', True))) of
           (s1, False) \<Rightarrow> s1
         | (s1, True) \<Rightarrow>
             (let s2 = peer_update a (\<lambda>q. q\<lparr>connected := True\<rparr>) s1;
                  s3 = peer_update a (tdls_auto_get_peer_data_rate e) s2;
                  s4 = tdls_auto_set_timer s3 (tdls_auto_data_teardown_period (extn s3))
                         Data_teardown_timeout
              in if conn_peer_count s4 \<noteq> 1 then s4
                 else tdls_auto_set_timer s4 (tdls_auto_rssi_teardown_period (extn s4))
                        Rssi_teardown_timeout))"

section \<open>Timer handlers\<close>

text \<open>
  Each handler walks the list with \<^verbatim>\<open>dl_list_for_each_safe\<close>. The body for one peer
  touches that peer only (it may remove it, through the disconnect capability), so the
  walk is a fold of the body over the addresses the list holds when the handler starts,
  each body looking its peer up by the address. Addresses of the registry are distinct:
  a peer is added only after its address was looked up without success.

  In a body, \<open>p\<close> is the peer found and \<open>p1\<close>, \<open>p2\<close> are that peer as the body's
  writes leave it, which is what the C code reads back through the pointer.

  The event loop removes a timeout before it calls the handler; the functions below are
  the handlers' bodies.
\<close>

definition fast_connect_peer :: "driver \<Rightarrow> tdls_auto_mode_ctx \<times> bool \<Rightarrow> macaddr \<Rightarrow> tdls_auto_mode_ctx \<times> bool" where
  "fast_connect_peer e sf a =
     (case sf of (s, peer_in_fast_connect) \<Rightarrow>
        (case tdls_auto_find_peer s a of
           None \<Rightarrow> sf
         | Some p \<Rightarrow>
             if connected p then sf
             else if fast_attempts p > TDLS_AUTO_MAX_FAST_CONN_ATTEMPTS then sf
             else (let s1 = peer_update a (\<lambda>q. q\<lparr>fast_attempts := fast_attempts q + 1\<rparr>) s;
                       s2 = peer_update a (tdls_auto_get_peer_data_rate e) s1;
                       p2 = tdls_auto_get_peer_data_rate e (p\<lparr>fast_attempts := fast_attempts p + 1\<rparr>)
                   in if data_rate p2 < tdls_auto_data_connect_threshold (extn s2)
                      then (s2, True)
                      else (emit (Send_discovery a) s2, True))))"

definition tdls_auto_fast_connect_timeout :: "driver \<Rightarrow> tdls_auto_mode_ctx \<Rightarrow> tdls_auto_mode_ctx" where
  "tdls_auto_fast_connect_timeout e s =
     (case foldl (fast_connect_peer e) (s, False) (map addr (peers s)) of
        (s1, peer_in_fast_connect) \<Rightarrow>
          if \<not> peer_in_fast_connect then s1
          else tdls_auto_set_timer s1 (tdls_auto_fast_connect_period (extn s1))
                 Fast_connect_timeout)"

definition slow_connect_peer :: "driver \<Rightarrow> tdls_auto_mode_ctx \<Rightarrow> macaddr \<Rightarrow> tdls_auto_mode_ctx" where
  "slow_connect_peer e s a =
     (case tdls_auto_find_peer s a of
        None \<Rightarrow> s
      | Some p \<Rightarrow>
          if connected p then s
          else if fast_attempts p \<le> TDLS_AUTO_MAX_FAST_CONN_ATTEMPTS then s
          else (let s1 = peer_update a (tdls_auto_get_peer_data_rate e) s;
                    p1 = tdls_auto_get_peer_data_rate e p
                in if data_rate p1 < tdls_auto_data_connect_threshold (extn s1) then s1
                   else emit (Send_discovery a) s1))"

definition tdls_auto_slow_connect_timeout :: "driver \<Rightarrow> tdls_auto_mode_ctx \<Rightarrow> tdls_auto_mode_ctx" where
  "tdls_auto_slow_connect_timeout e s =
     (let s1 = foldl (slow_connect_peer e) s (map addr (peers s))
      in if peer_count s1 = 0 then s1
         else tdls_auto_set_timer s1 (tdls_auto_slow_connect_period (extn s1))
                Slow_connect_timeout)"

definition data_teardown_peer :: "driver \<Rightarrow> tdls_auto_mode_ctx \<Rightarrow> macaddr \<Rightarrow> tdls_auto_mode_ctx" where
  "data_teardown_peer e s a =
     (case tdls_auto_find_peer s a of
        None \<Rightarrow> s
      | Some p \<Rightarrow>
          if \<not> connected p then s
          else (let s1 = peer_update a (tdls_auto_get_peer_data_rate e) s;
                    p1 = tdls_auto_get_peer_data_rate e p
                in if data_rate p1 \<ge> tdls_auto_data_teardown_threshold (extn s1) then s1
                   else wpas_tdls_auto_disconnect e s1 a))"

definition tdls_auto_data_teardown_timeout :: "driver \<Rightarrow> tdls_auto_mode_ctx \<Rightarrow> tdls_auto_mode_ctx" where
  "tdls_auto_data_teardown_timeout e s =
     (let s1 = foldl (data_teardown_peer e) s (map addr (peers s))
      in if conn_peer_count s1 = 0 then s1
         else tdls_auto_set_timer s1 (tdls_auto_data_teardown_period (extn s1))
                Data_teardown_timeout)"

text \<open>\<^verbatim>\<open>tdls_auto_get_connected_sta_rssi\<close>.\<close>

definition tdls_auto_get_connected_sta_rssi :: "driver \<Rightarrow> tdls_auto_peer \<Rightarrow> tdls_auto_peer" where
  "tdls_auto_get_connected_sta_rssi e p = p\<lparr>rssi := get_rssi e (addr p)\<rparr>"

text \<open>
  The body of the RSSI loop. After the disconnect capability the handler writes
  \<^verbatim>\<open>peer->low_rssi_vals = 0\<close> through the pointer it holds. When the capability
  delivered the \<open>disconnected\<close> event before it returned and the peer was an incoming
  one, \<^verbatim>\<open>tdls_auto_mode_stop\<close> has freed the peer by then: the write goes to freed
  memory and the behaviour of the program is undefined. The body is \<open>None\<close> in that
  case, and a walk of the list that meets \<open>None\<close> is \<open>None\<close>. With one peer per
  address, the peer has been freed exactly when its address is no longer found.
\<close>

definition rssi_teardown_peer :: "driver \<Rightarrow> tdls_auto_mode_ctx \<Rightarrow> macaddr \<Rightarrow> tdls_auto_mode_ctx option" where
  "rssi_teardown_peer e s a =
     (case tdls_auto_find_peer s a of
        None \<Rightarrow> Some s
      | Some p \<Rightarrow>
          if \<not> connected p then Some s
          else (let s1 = peer_update a (tdls_auto_get_connected_sta_rssi e) s;
                    p1 = tdls_auto_get_connected_sta_rssi e p
                in if rssi p1 \<ge> tdls_auto_rssi_teardown_threshold (extn s1)
                   then Some (peer_update a (\<lambda>q. q\<lparr>low_rssi_vals := 0\<rparr>) s1)
                   else (let s2 = peer_update a (\<lambda>q. q\<lparr>low_rssi_vals := low_rssi_vals q + 1\<rparr>) s1
                         in if low_rssi_vals p1 + 1 \<le> tdls_auto_rssi_teardown_count (extn s2)
                            then Some s2
                            else (let s3 = wpas_tdls_auto_disconnect e s2 a
                                  in case tdls_auto_find_peer s3 a of
                                       None \<Rightarrow> None
                                     | Some p3 \<Rightarrow>
                                         Some (peer_update a (\<lambda>q. q\<lparr>low_rssi_vals := 0\<rparr>) s3)))))"

text \<open>
  \<^verbatim>\<open>dl_list_for_each_safe\<close> over the addresses the list held when the loop began, with a
  body that may have no defined result.
\<close>

primrec walk :: "('s \<Rightarrow> macaddr \<Rightarrow> 's option) \<Rightarrow> 's \<Rightarrow> macaddr list \<Rightarrow> 's option" where
  "walk body s [] = Some s"
| "walk body s (a # as) = (case body s a of None \<Rightarrow> None | Some t \<Rightarrow> walk body t as)"

text \<open>\<^verbatim>\<open>tdls_auto_rssi_teardown_timeout\<close>: the loop, then the timer is set again iff a peer is connected.\<close>

definition tdls_auto_rssi_teardown_timeout :: "driver \<Rightarrow> tdls_auto_mode_ctx \<Rightarrow> tdls_auto_mode_ctx option" where
  "tdls_auto_rssi_teardown_timeout e s =
     (case walk (rssi_teardown_peer e) s (map addr (peers s)) of
        None \<Rightarrow> None
      | Some s1 \<Rightarrow>
          Some (if conn_peer_count s1 = 0 then s1
                else tdls_auto_set_timer s1 (tdls_auto_rssi_teardown_period (extn s1))
                       Rssi_teardown_timeout))"

section \<open>Removing all peers, initialisation\<close>

definition remove_peer :: "driver \<Rightarrow> bool \<Rightarrow> tdls_auto_mode_ctx \<Rightarrow> macaddr \<Rightarrow> tdls_auto_mode_ctx" where
  "remove_peer e kill_active_links s a =
     tdls_auto_mode_stop e
       (if \<not> kill_active_links then peer_update a (\<lambda>q. q\<lparr>connected := False\<rparr>) s else s) a"

definition tdls_auto_remove_peers :: "driver \<Rightarrow> tdls_auto_mode_ctx \<Rightarrow> bool \<Rightarrow> tdls_auto_mode_ctx" where
  "tdls_auto_remove_peers e s kill_active_links =
     foldl (remove_peer e kill_active_links) s (map addr (peers s))"

text \<open>
  \<^verbatim>\<open>tdls_auto_init\<close>, as the \<open>n\<close>-th allocation of its callback: \<open>None\<close> is the NULL
  return. No timeout is pending and no capability has been called.
\<close>

definition fresh_ctx :: "wpas_tdls_auto_ctx \<Rightarrow> tdls_auto_mode_ctx" where
  "fresh_ctx glue = \<lparr>peers = [], peer_count = 0, conn_peer_count = 0, extn = glue,
                      timeouts = (\<lambda>h. None), calls = []\<rparr>"

definition tdls_auto_init :: "driver \<Rightarrow> nat \<Rightarrow> wpas_tdls_auto_ctx \<Rightarrow> tdls_auto_mode_ctx option" where
  "tdls_auto_init e n glue = (if \<not> os_zalloc_ok e n then None else Some (fresh_ctx glue))"

section \<open>Supplicant glue\<close>

text \<open>
  What \<^verbatim>\<open>tdls_auto_glue.c\<close> reads of \<^verbatim>\<open>struct wpa_supplicant\<close>: the master switch
  \<^verbatim>\<open>conf->tdls_auto_enabled\<close>, the ten \<^verbatim>\<open>conf->tdls_auto_*\<close> values, the answer of
  \<^verbatim>\<open>wpa_tdls_is_external_setup\<close> and the controller pointer (\<open>None\<close>: NULL).
\<close>

record wpa_supplicant =
  conf_tdls_auto_enabled :: bool
  conf_tdls_auto :: wpas_tdls_auto_ctx
  tdls_external_setup :: bool
  tdls_auto :: "tdls_auto_mode_ctx option"

text \<open>\<^verbatim>\<open>wpas_tdls_auto_init\<close>: the supplicant it leaves and its return value.\<close>

definition wpas_tdls_auto_init :: "driver \<Rightarrow> wpa_supplicant \<Rightarrow> wpa_supplicant \<times> int" where
  "wpas_tdls_auto_init e w =
     (if \<not> conf_tdls_auto_enabled w then (w, 0)
      else if \<not> tdls_external_setup w then (w, - 1)
      else if tdls_auto w \<noteq> None then (w, - 1)
      else if \<not> os_zalloc_ok e 0 then (w, - 1)
      else (let glue = conf_tdls_auto w
            in if tdls_auto_fast_connect_period glue > tdls_auto_slow_connect_period glue
               then (w, - 1)
               else (case tdls_auto_init e 1 glue of
                   None \<Rightarrow> (w\<lparr>tdls_auto := None\<rparr>, - 1)
                 | Some ctx \<Rightarrow> (w\<lparr>tdls_auto := Some ctx\<rparr>, 0))))"

text \<open>The gate every other entry point of the glue starts with.\<close>

definition wpas_gate :: "wpa_supplicant \<Rightarrow> (tdls_auto_mode_ctx \<Rightarrow> tdls_auto_mode_ctx) \<Rightarrow> wpa_supplicant" where
  "wpas_gate w f =
     (case tdls_auto w of
        None \<Rightarrow> w
      | Some ctx \<Rightarrow> if \<not> conf_tdls_auto_enabled w then w else w\<lparr>tdls_auto := Some (f ctx)\<rparr>)"

definition wpas_tdls_auto_peer_connected :: "driver \<Rightarrow> wpa_supplicant \<Rightarrow> macaddr \<Rightarrow> wpa_supplicant" where
  "wpas_tdls_auto_peer_connected e w a = wpas_gate w (\<lambda>ctx. tdls_auto_peer_connected e ctx a)"

definition wpas_tdls_auto_peer_disconnected :: "driver \<Rightarrow> wpa_supplicant \<Rightarrow> macaddr \<Rightarrow> wpa_supplicant" where
  "wpas_tdls_auto_peer_disconnected e w a = wpas_gate w (\<lambda>ctx. tdls_auto_peer_disconnected e ctx a)"

definition wpas_tdls_auto_remove_peers :: "driver \<Rightarrow> wpa_supplicant \<Rightarrow> bool \<Rightarrow> wpa_supplicant" where
  "wpas_tdls_auto_remove_peers e w kill_active_links =
     wpas_gate w (\<lambda>ctx. tdls_auto_remove_peers e ctx kill_active_links)"

definition wpas_tdls_auto_start :: "driver \<Rightarrow> wpa_supplicant \<Rightarrow> macaddr \<Rightarrow> wpa_supplicant \<times> int" where
  "wpas_tdls_auto_start e w a =
     (case tdls_auto w of
        None \<Rightarrow> (w, - 1)
      | Some ctx \<Rightarrow>
          if \<not> conf_tdls_auto_enabled w then (w, - 1)
          else (case tdls_auto_mode_start e ctx a of
                  (ctx', res) \<Rightarrow> (w\<lparr>tdls_auto := Some ctx'\<rparr>, res)))"

definition wpas_tdls_auto_stop :: "driver \<Rightarrow> wpa_supplicant \<Rightarrow> macaddr \<Rightarrow> wpa_supplicant" where
  "wpas_tdls_auto_stop e w a = wpas_gate w (\<lambda>ctx. tdls_auto_mode_stop e ctx a)"

definition wpas_tdls_auto_discovery_response :: "driver \<Rightarrow> wpa_supplicant \<Rightarrow> macaddr \<Rightarrow> int \<Rightarrow> wpa_supplicant" where
  "wpas_tdls_auto_discovery_response e w a r =
     wpas_gate w (\<lambda>ctx. tdls_auto_discovery_response e ctx a r)"

section \<open>Properties under test and concrete inputs\<close>

text \<open>
  The registry invariant of the specification: \<open>peer_count\<close> is the number of peers
  and \<open>conn_peer_count\<close> the number of peers whose \<open>connected\<close> flag is set.
\<close>

definition counters_consistent :: "tdls_auto_mode_ctx \<Rightarrow> bool" where
  "counters_consistent s \<longleftrightarrow>
     unat (peer_count s) = length (peers s) \<and>
     unat (conn_peer_count s) = length (filter connected (peers s))"

text \<open>
  The rate formula in the words of the specification, to compare with the sampler:
  \<open>((rx_bytes - last_rx_bytes) + (tx_bytes - last_tx_bytes)) * 8 * 1000 / delta_msec\<close>,
  the two differences taken modulo \<open>2 ^ 32\<close>.
\<close>

definition claimed_data_rate :: "u32 \<Rightarrow> u32 \<Rightarrow> u32 \<Rightarrow> u32 \<Rightarrow> int \<Rightarrow> int" where
  "claimed_data_rate rx_bytes tx_bytes last_rx last_tx delta_msec =
     (uint (rx_bytes - last_rx) + uint (tx_bytes - last_tx)) * 8 * 1000 div delta_msec"

text \<open>A configuration with the values of the specification's scenarios.\<close>

definition example_conf :: wpas_tdls_auto_ctx where
  "example_conf = \<lparr>tdls_auto_rssi_connect_threshold = - 70,
     tdls_auto_data_connect_threshold = 10000,
     tdls_auto_fast_connect_period = 500,
     tdls_auto_slow_connect_period = 10000,
     tdls_auto_data_teardown_threshold = 10000,
     tdls_auto_data_teardown_period = 5000,
     tdls_auto_rssi_teardown_threshold = - 75,
     tdls_auto_rssi_teardown_period = 1000,
     tdls_auto_rssi_teardown_count = 2,
     tdls_auto_max_connected_peers = 1\<rparr>"

text \<open>
  A driver whose calls all succeed: the clock reads \<open>now\<close>, every station has the byte
  counters \<open>bytes\<close> and the RSSI \<open>r\<close>, and the disconnect capability delivers the
  \<open>disconnected\<close> event before it returns iff \<open>sync\<close>.
\<close>

definition example_driver :: "os_reltime \<Rightarrow> (u32 \<times> u32) option \<Rightarrow> int \<Rightarrow> bool \<Rightarrow> driver" where
  "example_driver now bytes r sync = \<lparr>get_rssi = (\<lambda>a. r), monitor_traffic = (\<lambda>a add. 0),
     get_sta_bytes = (\<lambda>a. bytes), os_get_reltime = (\<lambda>a. now), os_zalloc_ok = (\<lambda>n. True),
     disconnect_reenters = (\<lambda>a. sync)\<rparr>"

text \<open>The same driver at second 1, with no traffic counted so far.\<close>

definition quiet_driver :: driver where
  "quiet_driver = example_driver \<lparr>sec = 1, usec = 0\<rparr> (Some (0, 0)) (- 60) True"

text \<open>A supplicant with auto-mode enabled, not yet initialised.\<close>

definition example_wpa_s :: "wpas_tdls_auto_ctx \<Rightarrow> wpa_supplicant" where
  "example_wpa_s c = \<lparr>conf_tdls_auto_enabled = True, conf_tdls_auto = c,
     tdls_external_setup = True, tdls_auto = None\<rparr>"

text \<open>The controller after \<open>start(1)\<close>, and after \<open>start(1); connected(1)\<close>.\<close>

definition started_ctx :: tdls_auto_mode_ctx where
  "started_ctx = fst (tdls_auto_mode_start quiet_driver (fresh_ctx example_conf) 1)"

definition connected_ctx :: tdls_auto_mode_ctx where
  "connected_ctx = tdls_auto_peer_connected quiet_driver started_ctx 1"

text \<open>
  What the controller holds and has done about one address: the address a capability
  call was made for, the calls of the trace made for an address, and the view of an
  address (the configuration, the peer tracked for it, the calls made for it).
\<close>

primrec call_addr :: "call \<Rightarrow> macaddr" where
  "call_addr (Connect a) = a"
| "call_addr (Disconnect a) = a"
| "call_addr (Send_discovery a) = a"
| "call_addr (Monitor_traffic a add) = a"

definition calls_for :: "macaddr \<Rightarrow> tdls_auto_mode_ctx \<Rightarrow> call list" where
  "calls_for d s = filter (\<lambda>c. call_addr c = d) (calls s)"

definition peer_view :: "macaddr \<Rightarrow> tdls_auto_mode_ctx \<Rightarrow> wpas_tdls_auto_ctx \<times> tdls_auto_peer option \<times> call list" where
  "peer_view d s = (extn s, tdls_auto_find_peer s d, calls_for d s)"

text \<open>
  The registry holds at most one peer per address. The controller keeps this: it starts
  with no peer, and \<^verbatim>\<open>tdls_auto_mode_start\<close> and \<^verbatim>\<open>tdls_auto_peer_connected\<close> add a
  peer only after \<^verbatim>\<open>tdls_auto_find_peer\<close> found none.
\<close>

definition addrs_distinct :: "tdls_auto_mode_ctx \<Rightarrow> bool" where
  "addrs_distinct s \<longleftrightarrow> distinct (map addr (peers s))"

text \<open>
  No connected incoming peer is one for which the disconnect capability delivers the
  \<open>disconnected\<close> event before it returns. Under this condition no firing of the RSSI
  handler writes to a freed peer.
\<close>

definition reentry_safe :: "driver \<Rightarrow> tdls_auto_mode_ctx \<Rightarrow> bool" where
  "reentry_safe e s \<longleftrightarrow>
     (\<forall>q \<in> set (peers s). connected q \<and> incoming_peer q \<longrightarrow> \<not> disconnect_reenters e (addr q))"

text \<open>Successive firings of the fast-connect handler, one driver answer per firing.\<close>

primrec fast_ticks :: "driver list \<Rightarrow> tdls_auto_mode_ctx \<Rightarrow> tdls_auto_mode_ctx" where
  "fast_ticks [] s = s"
| "fast_ticks (e # es) s = fast_ticks es (tdls_auto_fast_connect_timeout e s)"

text \<open>
  A driver that counts 2000 bytes received at second 1 (16000 bit/s for a peer never
  sampled before), and one that reports the RSSI -80.
\<close>

definition good_driver :: driver where
  "good_driver = example_driver \<lparr>sec = 1, usec = 0\<rparr> (Some (0, 2000)) (- 60) True"



section \<open>Basic facts about the registry\<close>

lemma find_in_addr: "find_in ps a = Some p \<Longrightarrow> addr p = a"
  by (induction ps) (auto split: if_splits)

lemma find_in_update_same:
  "(\<And>q. addr (f q) = addr q) \<Longrightarrow> find_in (update_in a f ps) a = map_option f (find_in ps a)"
  by (induction ps) auto

lemma find_in_update_other:
  "(\<And>q. addr (f q) = addr q) \<Longrightarrow> b \<noteq> a \<Longrightarrow> find_in (update_in a f ps) b = find_in ps b"
  by (induction ps) auto

lemma get_peer_data_rate_addr: "addr (tdls_auto_get_peer_data_rate e p) = addr p"
  by (simp add: tdls_auto_get_peer_data_rate_def Let_def split: option.splits prod.splits)

section \<open>Lemmas for evaluation and for the sampler\<close>

lemmas eval_defs =
  fresh_ctx_def example_conf_def example_driver_def quiet_driver_def example_wpa_s_def
  started_ctx_def connected_ctx_def
  tdls_auto_find_peer_def peer_update_def emit_def tdls_auto_set_timer_def
  tdls_auto_cancel_timer_def zeroed_peer_def tdls_auto_peer_add_to_list_def
  os_reltime_sub_def elapsed_msec_def delta_msec_of_def tdls_auto_get_peer_data_rate_def
  TDLS_AUTO_MIN_SAMPLE_TIME_DIFF_MSEC_def TDLS_AUTO_MAX_FAST_CONN_ATTEMPTS_def
  tdls_auto_discovery_response_def tdls_auto_add_peer_def tdls_auto_mode_start_def
  tdls_auto_peer_free_def wpas_tdls_auto_disconnect.simps tdls_auto_mode_stop.simps
  tdls_auto_peer_disconnected.simps tdls_auto_peer_connected_def
  remove_peer_def tdls_auto_remove_peers_def Let_def

lemma find_peer_update_same:
  "(\<And>q. addr (f q) = addr q) \<Longrightarrow>
   tdls_auto_find_peer (peer_update a f s) a = map_option f (tdls_auto_find_peer s a)"
  by (simp add: tdls_auto_find_peer_def peer_update_def find_in_update_same)

lemma get_peer_data_rate_rssi:
  "tdls_auto_get_peer_data_rate e (p\<lparr>rssi := r\<rparr>) = (tdls_auto_get_peer_data_rate e p)\<lparr>rssi := r\<rparr>"
  by (simp add: tdls_auto_get_peer_data_rate_def Let_def split: option.splits prod.splits)

lemma calls_peer_update: "calls (peer_update a f s) = calls s"
  by (simp add: peer_update_def)

lemma delta_msec_bound: "delta_msec_of now prev < 2 ^ 31"
  using sint_lt [where 'a = 32] by (simp add: delta_msec_of_def Let_def)

lemma delta_msec_in_range:
  assumes "- (2 ^ 31) \<le> elapsed_msec now prev" "elapsed_msec now prev < 2 ^ 31"
  shows "delta_msec_of now prev = elapsed_msec now prev"
  using assms by (simp add: delta_msec_of_def sint_sbintrunc' signed_take_bit_int_eq_self)

lemma unat_delta_word:
  assumes "0 \<le> k" "k < 2 ^ 31"
  shows "unat (word_of_int k :: 32 word) = nat k"
  using assms by (simp add: unat_eq_nat_uint uint_word_of_int)

lemma unat_rate:
  fixes b :: u32
  assumes "100 \<le> k" "k < 2 ^ 31"
  shows "unat (b div word_of_int k * 1000) = (unat b div nat k) * 1000 mod 2 ^ 32"
proof -
  have k: "unat (word_of_int k :: u32) = nat k"
    using assms by (simp add: unat_delta_word)
  have "unat (b div word_of_int k * 1000) = unat (b div word_of_int k) * unat (1000 :: u32) mod 2 ^ 32"
    by (simp only: unat_word_ariths(2)) simp
  also have "unat (b div word_of_int k) = unat b div nat k"
    using k by (simp add: unat_div)
  finally show ?thesis by simp
qed

lemma unat_delta_bits:
  fixes x y :: u32
  shows "unat (x * 8 + y * 8) = (unat x * 8 + unat y * 8) mod 2 ^ 32"
  by (simp add: unat_word_ariths mod_simps)

section \<open>Initialisation and the period check\<close>

text \<open>
  C2. The claim: initialisation fails whenever \<open>fast_connect_period\<close> is greater than
  or equal to \<open>slow_connect_period\<close>; equal periods are rejected. The glue's error
  text says the same ("fast cycle must be shorter than slow"), but its test is
  \<^verbatim>\<open>fast > slow\<close>: with both periods 500 ms, auto-mode enabled, external setup
  available and memory at hand, initialisation returns 0 and the supplicant holds a
  fresh controller.
\<close>

theorem C2_equal_periods_accepted:
  "tdls_auto_fast_connect_period (example_conf\<lparr>tdls_auto_slow_connect_period := 500\<rparr>)
     = tdls_auto_slow_connect_period (example_conf\<lparr>tdls_auto_slow_connect_period := 500\<rparr>)
   \<and> wpas_tdls_auto_init quiet_driver
        (example_wpa_s (example_conf\<lparr>tdls_auto_slow_connect_period := 500\<rparr>))
      = ((example_wpa_s (example_conf\<lparr>tdls_auto_slow_connect_period := 500\<rparr>))
           \<lparr>tdls_auto := Some (fresh_ctx (example_conf\<lparr>tdls_auto_slow_connect_period := 500\<rparr>))\<rparr>, 0)"
  by (simp add: wpas_tdls_auto_init_def tdls_auto_init_def example_conf_def example_wpa_s_def
        quiet_driver_def example_driver_def Let_def)

text \<open>
  What the glue does for every configuration. With auto-mode enabled, initialisation
  returns -1 and leaves the supplicant as it was whenever the fast period is strictly
  greater than the slow period. When the fast period is at most the slow period,
  external TDLS setup is available, no controller exists yet and both allocations
  succeed, it returns 0 and the supplicant holds a fresh controller with the configured
  values. Without a controller every other entry point of the glue changes nothing.
\<close>

lemma init_period_check:
  assumes "conf_tdls_auto_enabled w"
  shows "(tdls_auto_fast_connect_period (conf_tdls_auto w)
            > tdls_auto_slow_connect_period (conf_tdls_auto w)
          \<longrightarrow> wpas_tdls_auto_init e w = (w, - 1))
       \<and> (tdls_auto_fast_connect_period (conf_tdls_auto w)
            \<le> tdls_auto_slow_connect_period (conf_tdls_auto w)
          \<and> tdls_external_setup w \<and> tdls_auto w = None \<and> os_zalloc_ok e 0 \<and> os_zalloc_ok e 1
          \<longrightarrow> wpas_tdls_auto_init e w
              = (w\<lparr>tdls_auto := Some (fresh_ctx (conf_tdls_auto w))\<rparr>, 0))
       \<and> (tdls_auto w = None
          \<longrightarrow> wpas_tdls_auto_start e w a = (w, - 1)
            \<and> wpas_tdls_auto_stop e w a = w
            \<and> wpas_tdls_auto_peer_connected e w a = w
            \<and> wpas_tdls_auto_peer_disconnected e w a = w
            \<and> wpas_tdls_auto_discovery_response e w a r = w
            \<and> wpas_tdls_auto_remove_peers e w k = w)"
  using assms
  by (auto simp: wpas_tdls_auto_init_def Let_def tdls_auto_init_def wpas_gate_def
        wpas_tdls_auto_start_def wpas_tdls_auto_stop_def wpas_tdls_auto_peer_connected_def
        wpas_tdls_auto_peer_disconnected_def wpas_tdls_auto_discovery_response_def
        wpas_tdls_auto_remove_peers_def)

text \<open>The scenario of the specification: 2000 ms against 1000 ms is refused.\<close>

lemma init_period_check_example:
  "wpas_tdls_auto_init quiet_driver
     (example_wpa_s (example_conf\<lparr>tdls_auto_fast_connect_period := 2000,
                                  tdls_auto_slow_connect_period := 1000\<rparr>))
   = (example_wpa_s (example_conf\<lparr>tdls_auto_fast_connect_period := 2000,
                                   tdls_auto_slow_connect_period := 1000\<rparr>), - 1)
   \<and> wpas_tdls_auto_start quiet_driver
       (example_wpa_s (example_conf\<lparr>tdls_auto_fast_connect_period := 2000,
                                    tdls_auto_slow_connect_period := 1000\<rparr>)) 1
     = (example_wpa_s (example_conf\<lparr>tdls_auto_fast_connect_period := 2000,
                                     tdls_auto_slow_connect_period := 1000\<rparr>), - 1)
   \<and> wpas_tdls_auto_init quiet_driver (example_wpa_s example_conf)
     = ((example_wpa_s example_conf)\<lparr>tdls_auto := Some (fresh_ctx example_conf)\<rparr>, 0)"
  using init_period_check [of "example_wpa_s (example_conf\<lparr>tdls_auto_fast_connect_period := 2000,
                                  tdls_auto_slow_connect_period := 1000\<rparr>)" quiet_driver 1]
        init_period_check [of "example_wpa_s example_conf" quiet_driver]
  by (simp add: example_conf_def example_wpa_s_def quiet_driver_def example_driver_def)

section \<open>Discovery responses\<close>

text \<open>
  C4. For a tracked peer that is not connected, a discovery response calls the connect
  capability for its address if and only if the reported RSSI is strictly greater than
  \<open>rssi_connect_threshold\<close>, the data rate the sampler leaves is at least
  \<open>data_connect_threshold\<close> and \<open>conn_peer_count\<close> is strictly less than
  \<open>max_connected_peers\<close>; nothing else is called. A response for an unknown address
  changes nothing, and with \<open>max_connected_peers = 0\<close> no response calls anything.
\<close>

theorem C4_discovery_response_connect:
  "(tdls_auto_find_peer s a = None \<longrightarrow> tdls_auto_discovery_response e s a r = s) \<and>
   (\<forall>p. tdls_auto_find_peer s a = Some p \<and> \<not> connected p \<longrightarrow>
      calls (tdls_auto_discovery_response e s a r) =
        calls s @ (if tdls_auto_rssi_connect_threshold (extn s) < r
                      \<and> tdls_auto_data_connect_threshold (extn s)
                          \<le> data_rate (tdls_auto_get_peer_data_rate e p)
                      \<and> conn_peer_count s < tdls_auto_max_connected_peers (extn s)
                   then [Connect a] else [])) \<and>
   (tdls_auto_max_connected_peers (extn s) = 0 \<longrightarrow>
      calls (tdls_auto_discovery_response e s a r) = calls s)"
  by (auto simp: tdls_auto_discovery_response_def Let_def calls_peer_update emit_def
        get_peer_data_rate_rssi peer_update_def not_le not_less get_peer_data_rate_addr
        tdls_auto_find_peer_def dest: find_in_addr
        split: option.splits)

theorem C4_discovery_response_connect_witness:
  "tdls_auto_discovery_response
       (example_driver \<lparr>sec = 1, usec = 0\<rparr> (Some (0, 2000)) (- 60) True) started_ctx 2 (- 60)
     = started_ctx
   \<and> calls (tdls_auto_discovery_response
       (example_driver \<lparr>sec = 1, usec = 0\<rparr> (Some (0, 2000)) (- 60) True) started_ctx 1 (- 60))
     = calls started_ctx @ [Connect 1]
   \<and> calls (tdls_auto_discovery_response
       (example_driver \<lparr>sec = 1, usec = 0\<rparr> (Some (0, 2000)) (- 60) True) started_ctx 1 (- 70))
     = calls started_ctx
   \<and> calls (tdls_auto_discovery_response
       (example_driver \<lparr>sec = 1, usec = 0\<rparr> (Some (0, 2000)) (- 60) True)
       (started_ctx\<lparr>extn := example_conf\<lparr>tdls_auto_max_connected_peers := 0\<rparr>\<rparr>) 1 (- 60))
     = calls started_ctx"
  using C4_discovery_response_connect [of started_ctx 2
          "example_driver \<lparr>sec = 1, usec = 0\<rparr> (Some (0, 2000)) (- 60) True" "- 60"]
        C4_discovery_response_connect [of started_ctx 1
          "example_driver \<lparr>sec = 1, usec = 0\<rparr> (Some (0, 2000)) (- 60) True" "- 60"]
        C4_discovery_response_connect [of started_ctx 1
          "example_driver \<lparr>sec = 1, usec = 0\<rparr> (Some (0, 2000)) (- 60) True" "- 70"]
        C4_discovery_response_connect [of
          "started_ctx\<lparr>extn := example_conf\<lparr>tdls_auto_max_connected_peers := 0\<rparr>\<rparr>" 1
          "example_driver \<lparr>sec = 1, usec = 0\<rparr> (Some (0, 2000)) (- 60) True" "- 60"]
  by (simp add: eval_defs)

text \<open>
  C5. The claim: a discovery response for a connected peer changes no field of the peer,
  its stored RSSI included. The handler stores the RSSI before it tests \<open>connected\<close>:
  the connected peer of \<open>connected_ctx\<close> has RSSI 0 before a response with RSSI -60 and
  RSSI -60 after it.
\<close>

theorem C5_rssi_overwritten:
  "map connected (peers connected_ctx) = [True]
   \<and> map rssi (peers connected_ctx) = [0]
   \<and> map rssi (peers (tdls_auto_discovery_response quiet_driver connected_ctx 1 (- 60))) = [- 60]"
  by (simp add: eval_defs)

text \<open>
  C5, amended. A discovery response for a connected peer stores the reported RSSI in that
  peer and changes nothing else: the peer's other fields, every other peer, both
  counters, the configuration and the pending timeouts are as before, and no capability
  is called.
\<close>

theorem C5_connected_peer_response:
  assumes "tdls_auto_find_peer s a = Some p" and "connected p"
  shows "tdls_auto_discovery_response e s a r = s\<lparr>peers := update_in a (\<lambda>q. q\<lparr>rssi := r\<rparr>) (peers s)\<rparr>
       \<and> tdls_auto_find_peer (tdls_auto_discovery_response e s a r) a = Some (p\<lparr>rssi := r\<rparr>)
       \<and> (\<forall>b. b \<noteq> a \<longrightarrow> tdls_auto_find_peer (tdls_auto_discovery_response e s a r) b
                          = tdls_auto_find_peer s b)"
proof -
  have eq: "tdls_auto_discovery_response e s a r = peer_update a (\<lambda>q. q\<lparr>rssi := r\<rparr>) s"
    using assms by (simp add: tdls_auto_discovery_response_def Let_def)
  show ?thesis
    using assms(1)
    by (simp add: eq find_peer_update_same)
       (simp add: peer_update_def tdls_auto_find_peer_def find_in_update_other)
qed

theorem C5_connected_peer_response_witness:
  "tdls_auto_discovery_response quiet_driver connected_ctx 1 (- 60)
     = connected_ctx\<lparr>peers := update_in 1 (\<lambda>q. q\<lparr>rssi := - 60\<rparr>) (peers connected_ctx)\<rparr>
   \<and> calls (tdls_auto_discovery_response quiet_driver connected_ctx 1 (- 60)) = calls connected_ctx
   \<and> conn_peer_count (tdls_auto_discovery_response quiet_driver connected_ctx 1 (- 60)) = 1"
  using C5_connected_peer_response [of connected_ctx 1 "hd (peers connected_ctx)" quiet_driver "- 60"]
  by (simp add: eval_defs)

section \<open>The cap on connected peers\<close>




section \<open>The rate sampler\<close>

text \<open>
  C6. The claim gives the rate as
  \<open>((rx_bytes - last_rx_bytes) + (tx_bytes - last_tx_bytes)) * 8 * 1000 / delta_msec\<close>.
  The sampler divides the bit count by \<open>delta_msec\<close> first and multiplies the truncated
  quotient by 1000: 19 bytes received in 100 ms give 1000 bit/s, where the claimed
  formula gives 1520.
\<close>

theorem C6_rate_truncated_before_scaling:
  "uint (data_rate (tdls_auto_get_peer_data_rate
       (example_driver \<lparr>sec = 0, usec = 100000\<rparr> (Some (0, 19)) (- 60) True) (zeroed_peer 1)))
     = 1000
   \<and> claimed_data_rate 19 0 (last_rx_bytes (zeroed_peer 1)) (last_tx_bytes (zeroed_peer 1))
        (delta_msec_of \<lparr>sec = 0, usec = 100000\<rparr> (last_query_time (zeroed_peer 1)))
     = 1520
   \<and> uint (data_rate (tdls_auto_get_peer_data_rate
       (example_driver \<lparr>sec = 0, usec = 100000\<rparr> (Some (0, 19)) (- 60) True) (zeroed_peer 1)))
     \<noteq> claimed_data_rate 19 0 (last_rx_bytes (zeroed_peer 1)) (last_tx_bytes (zeroed_peer 1))
        (delta_msec_of \<lparr>sec = 0, usec = 100000\<rparr> (last_query_time (zeroed_peer 1)))"
  by (simp add: eval_defs claimed_data_rate_def)

text \<open>
  C6, amended. For a time since \<open>last_query_time\<close> whose milliseconds fit an \<^verbatim>\<open>int\<close>:
  if it is less than 100 ms no field of the peer changes; else if \<open>get_sta_bytes\<close>
  fails, \<open>data_rate\<close> becomes 0 and nothing else changes; else \<open>last_rx_bytes\<close>,
  \<open>last_tx_bytes\<close> and \<open>last_query_time\<close> take the new sample and no other field but
  \<open>data_rate\<close> changes. The byte differences are taken modulo \<open>2 ^ 32\<close>, so that a
  counter that wrapped once since the last sample gives the true difference, and when
  the bit count and the scaled rate fit 32 bits,
  \<open>data_rate = ((((rx_bytes - last_rx_bytes) + (tx_bytes - last_tx_bytes)) * 8) / delta_msec) * 1000\<close>:
  the division truncates before the multiplication by 1000.
\<close>

theorem C6_sampler:
  assumes "- (2 ^ 31) \<le> elapsed_msec (os_get_reltime e (addr p)) (last_query_time p)"
    and "elapsed_msec (os_get_reltime e (addr p)) (last_query_time p) < 2 ^ 31"
  shows
  "(elapsed_msec (os_get_reltime e (addr p)) (last_query_time p) < 100 \<longrightarrow>
      tdls_auto_get_peer_data_rate e p = p) \<and>
   (100 \<le> elapsed_msec (os_get_reltime e (addr p)) (last_query_time p)
      \<and> get_sta_bytes e (addr p) = None \<longrightarrow>
      tdls_auto_get_peer_data_rate e p = p\<lparr>data_rate := 0\<rparr>) \<and>
   (\<forall>tx_bytes rx_bytes.
      100 \<le> elapsed_msec (os_get_reltime e (addr p)) (last_query_time p)
      \<and> get_sta_bytes e (addr p) = Some (tx_bytes, rx_bytes) \<longrightarrow>
      tdls_auto_get_peer_data_rate e p =
        p\<lparr>last_rx_bytes := rx_bytes, last_tx_bytes := tx_bytes,
          last_query_time := os_get_reltime e (addr p),
          data_rate := data_rate (tdls_auto_get_peer_data_rate e p)\<rparr>
      \<and> unat (rx_bytes - last_rx_bytes p) =
          (if unat (last_rx_bytes p) \<le> unat rx_bytes
           then unat rx_bytes - unat (last_rx_bytes p)
           else unat rx_bytes + 2 ^ 32 - unat (last_rx_bytes p))
      \<and> unat (tx_bytes - last_tx_bytes p) =
          (if unat (last_tx_bytes p) \<le> unat tx_bytes
           then unat tx_bytes - unat (last_tx_bytes p)
           else unat tx_bytes + 2 ^ 32 - unat (last_tx_bytes p))
      \<and> ((unat (rx_bytes - last_rx_bytes p) + unat (tx_bytes - last_tx_bytes p)) * 8 < 2 ^ 32
          \<and> ((unat (rx_bytes - last_rx_bytes p) + unat (tx_bytes - last_tx_bytes p)) * 8
                div nat (elapsed_msec (os_get_reltime e (addr p)) (last_query_time p)))
              * 1000 < 2 ^ 32 \<longrightarrow>
          unat (data_rate (tdls_auto_get_peer_data_rate e p)) =
            ((unat (rx_bytes - last_rx_bytes p) + unat (tx_bytes - last_tx_bytes p)) * 8
               div nat (elapsed_msec (os_get_reltime e (addr p)) (last_query_time p)))
            * 1000))"
proof -
  let ?el = "elapsed_msec (os_get_reltime e (addr p)) (last_query_time p)"
  have dm: "delta_msec_of (os_get_reltime e (addr p)) (last_query_time p) = ?el"
    using assms by (rule delta_msec_in_range)
  have c1: "?el < 100 \<longrightarrow> tdls_auto_get_peer_data_rate e p = p"
    by (simp add: tdls_auto_get_peer_data_rate_def Let_def dm
          TDLS_AUTO_MIN_SAMPLE_TIME_DIFF_MSEC_def)
  have c2: "100 \<le> ?el \<and> get_sta_bytes e (addr p) = None \<longrightarrow>
      tdls_auto_get_peer_data_rate e p = p\<lparr>data_rate := 0\<rparr>"
    by (simp add: tdls_auto_get_peer_data_rate_def Let_def dm
          TDLS_AUTO_MIN_SAMPLE_TIME_DIFF_MSEC_def)
  have c3: "tdls_auto_get_peer_data_rate e p =
        p\<lparr>last_rx_bytes := rx_bytes, last_tx_bytes := tx_bytes,
          last_query_time := os_get_reltime e (addr p),
          data_rate := data_rate (tdls_auto_get_peer_data_rate e p)\<rparr>
      \<and> unat (rx_bytes - last_rx_bytes p) =
          (if unat (last_rx_bytes p) \<le> unat rx_bytes
           then unat rx_bytes - unat (last_rx_bytes p)
           else unat rx_bytes + 2 ^ 32 - unat (last_rx_bytes p))
      \<and> unat (tx_bytes - last_tx_bytes p) =
          (if unat (last_tx_bytes p) \<le> unat tx_bytes
           then unat tx_bytes - unat (last_tx_bytes p)
           else unat tx_bytes + 2 ^ 32 - unat (last_tx_bytes p))
      \<and> ((unat (rx_bytes - last_rx_bytes p) + unat (tx_bytes - last_tx_bytes p)) * 8 < 2 ^ 32
          \<and> ((unat (rx_bytes - last_rx_bytes p) + unat (tx_bytes - last_tx_bytes p)) * 8
                div nat ?el) * 1000 < 2 ^ 32 \<longrightarrow>
          unat (data_rate (tdls_auto_get_peer_data_rate e p)) =
            ((unat (rx_bytes - last_rx_bytes p) + unat (tx_bytes - last_tx_bytes p)) * 8
               div nat ?el) * 1000)"
    if h: "100 \<le> ?el \<and> get_sta_bytes e (addr p) = Some (tx_bytes, rx_bytes)"
    for tx_bytes rx_bytes
  proof (intro conjI impI)
    let ?bits = "(unat (rx_bytes - last_rx_bytes p) + unat (tx_bytes - last_tx_bytes p)) * 8"
    have eq: "tdls_auto_get_peer_data_rate e p =
        p\<lparr>last_rx_bytes := rx_bytes, last_tx_bytes := tx_bytes,
          last_query_time := os_get_reltime e (addr p),
          data_rate := ((rx_bytes - last_rx_bytes p) * 8 + (tx_bytes - last_tx_bytes p) * 8)
             div word_of_int ?el * 1000\<rparr>"
      using h by (simp add: tdls_auto_get_peer_data_rate_def Let_def dm
            TDLS_AUTO_MIN_SAMPLE_TIME_DIFF_MSEC_def)
    show "tdls_auto_get_peer_data_rate e p =
        p\<lparr>last_rx_bytes := rx_bytes, last_tx_bytes := tx_bytes,
          last_query_time := os_get_reltime e (addr p),
          data_rate := data_rate (tdls_auto_get_peer_data_rate e p)\<rparr>"
      by (simp add: eq)
    show "unat (rx_bytes - last_rx_bytes p) =
          (if unat (last_rx_bytes p) \<le> unat rx_bytes
           then unat rx_bytes - unat (last_rx_bytes p)
           else unat rx_bytes + 2 ^ 32 - unat (last_rx_bytes p))"
      by (simp add: unat_sub_if')
    show "unat (tx_bytes - last_tx_bytes p) =
          (if unat (last_tx_bytes p) \<le> unat tx_bytes
           then unat tx_bytes - unat (last_tx_bytes p)
           else unat tx_bytes + 2 ^ 32 - unat (last_tx_bytes p))"
      by (simp add: unat_sub_if')
    assume fit: "?bits < 2 ^ 32 \<and> (?bits div nat ?el) * 1000 < 2 ^ 32"
    have "data_rate (tdls_auto_get_peer_data_rate e p) =
        ((rx_bytes - last_rx_bytes p) * 8 + (tx_bytes - last_tx_bytes p) * 8)
           div word_of_int ?el * 1000"
      by (simp add: eq)
    then have "unat (data_rate (tdls_auto_get_peer_data_rate e p)) =
        ((unat (rx_bytes - last_rx_bytes p) * 8 + unat (tx_bytes - last_tx_bytes p) * 8) mod 2 ^ 32
           div nat ?el) * 1000 mod 2 ^ 32"
      using h assms(2) by (simp only: unat_rate unat_delta_bits)
    also have "unat (rx_bytes - last_rx_bytes p) * 8 + unat (tx_bytes - last_tx_bytes p) * 8 = ?bits"
      by (simp add: algebra_simps)
    also have "?bits mod 2 ^ 32 = ?bits"
      using fit by simp
    also have "(?bits div nat ?el) * 1000 mod 2 ^ 32 = (?bits div nat ?el) * 1000"
      using fit by simp
    finally show "unat (data_rate (tdls_auto_get_peer_data_rate e p)) = (?bits div nat ?el) * 1000" .
  qed
  from c1 c2 c3 show ?thesis by blast
qed

theorem C6_sampler_witness:
  "tdls_auto_get_peer_data_rate
       (example_driver \<lparr>sec = 0, usec = 99000\<rparr> (Some (0, 19)) (- 60) True) (zeroed_peer 1)
     = zeroed_peer 1
   \<and> tdls_auto_get_peer_data_rate
       (example_driver \<lparr>sec = 0, usec = 100000\<rparr> None (- 60) True)
       ((zeroed_peer 1)\<lparr>data_rate := 5\<rparr>)
     = zeroed_peer 1
   \<and> unat (data_rate (tdls_auto_get_peer_data_rate
       (example_driver \<lparr>sec = 0, usec = 100000\<rparr> (Some (0, 19)) (- 60) True) (zeroed_peer 1)))
     = 1000
   \<and> unat (data_rate (tdls_auto_get_peer_data_rate
       (example_driver \<lparr>sec = 2, usec = 0\<rparr> (Some (0, 1000)) (- 60) True)
       ((zeroed_peer 1)\<lparr>last_rx_bytes := 4294967196\<rparr>)))
     = 4000"
  using C6_sampler [of "example_driver \<lparr>sec = 0, usec = 99000\<rparr> (Some (0, 19)) (- 60) True"
          "zeroed_peer 1"]
        C6_sampler [of "example_driver \<lparr>sec = 0, usec = 100000\<rparr> None (- 60) True"
          "(zeroed_peer 1)\<lparr>data_rate := 5\<rparr>"]
        C6_sampler [of "example_driver \<lparr>sec = 0, usec = 100000\<rparr> (Some (0, 19)) (- 60) True"
          "zeroed_peer 1"]
        C6_sampler [of "example_driver \<lparr>sec = 2, usec = 0\<rparr> (Some (0, 1000)) (- 60) True"
          "(zeroed_peer 1)\<lparr>last_rx_bytes := 4294967196\<rparr>"]
  by (simp add: example_driver_def zeroed_peer_def elapsed_msec_def os_reltime_sub_def Let_def)

section \<open>The two counters\<close>

text \<open>
  C1. The claim: after every operation \<open>peer_count\<close> is the number of peers and
  \<open>conn_peer_count\<close> the number of connected peers. The counters agree with the
  registry of a fresh controller, and no longer after each of:
  a \<open>connected\<close> event for an unknown address whose traffic accounting cannot be
  enabled (the counter is incremented, no peer is created);
  a second \<open>connected\<close> event for a connected peer (the counter is incremented again);
  \<open>remove_all\<close> with \<open>kill_active_links\<close> false on a controller with a connected
  peer (the registry is emptied, the counter stays at 1).
\<close>

theorem C1_counters_drift:
  "counters_consistent (fresh_ctx example_conf)
   \<and> counters_consistent connected_ctx
   \<and> \<not> counters_consistent
         (tdls_auto_peer_connected (quiet_driver\<lparr>monitor_traffic := (\<lambda>a add. - 1)\<rparr>)
            (fresh_ctx example_conf) 1)
   \<and> \<not> counters_consistent (tdls_auto_peer_connected quiet_driver connected_ctx 1)
   \<and> \<not> counters_consistent (tdls_auto_remove_peers quiet_driver connected_ctx False)
   \<and> peers (tdls_auto_remove_peers quiet_driver connected_ctx False) = []
   \<and> conn_peer_count (tdls_auto_remove_peers quiet_driver connected_ctx False) = 1"
  by (simp add: eval_defs counters_consistent_def)

text \<open>
  C8. The claim: a second \<open>disconnected\<close> event for a tracked peer, right after the
  first, leaves the whole state as the first left it. For the peer of \<open>connected_ctx\<close>
  (created by \<open>start\<close>) the first event takes \<open>conn_peer_count\<close> from 1 to 0, and the
  second decrements it again, to \<open>2 ^ 32 - 1\<close>; the registry is the same after both.
\<close>

theorem C8_second_disconnected_decrements:
  "conn_peer_count (tdls_auto_peer_disconnected quiet_driver connected_ctx 1) = 0
   \<and> conn_peer_count (tdls_auto_peer_disconnected quiet_driver
        (tdls_auto_peer_disconnected quiet_driver connected_ctx 1) 1) = 4294967295
   \<and> peers (tdls_auto_peer_disconnected quiet_driver
        (tdls_auto_peer_disconnected quiet_driver connected_ctx 1) 1)
     = peers (tdls_auto_peer_disconnected quiet_driver connected_ctx 1)
   \<and> tdls_auto_peer_disconnected quiet_driver
        (tdls_auto_peer_disconnected quiet_driver connected_ctx 1) 1
     \<noteq> tdls_auto_peer_disconnected quiet_driver connected_ctx 1"
  by (simp add: eval_defs)

section \<open>One peer across a walk of the list\<close>

text \<open>
  The handlers fold a body over the addresses of the list. A body run for another
  address leaves the view of an address as it is, so the view after the fold is the view
  after the one body run for the address itself.
\<close>

lemma map_addr_update_in:
  "(\<And>q. addr (f q) = addr q) \<Longrightarrow> map addr (update_in a f ps) = map addr ps"
  by (induction ps) auto

lemma find_in_delete_other: "d \<noteq> a \<Longrightarrow> find_in (delete_in a ps) d = find_in ps d"
  by (induction ps) auto

lemma find_in_None_iff: "find_in ps a = None \<longleftrightarrow> a \<notin> set (map addr ps)"
  by (induction ps) auto

lemma set_delete_in_subset: "set (map addr (delete_in a ps)) \<subseteq> set (map addr ps)"
  by (induction ps) auto

lemma distinct_delete_in: "distinct (map addr ps) \<Longrightarrow> distinct (map addr (delete_in a ps))"
  using set_delete_in_subset by (induction ps) fastforce+

lemma find_in_delete_same: "distinct (map addr ps) \<Longrightarrow> find_in (delete_in a ps) a = None"
  by (induction ps) (auto simp: find_in_None_iff)

lemma view_peer_update_other:
  "(\<And>q. addr (f q) = addr q) \<Longrightarrow> d \<noteq> a \<Longrightarrow> peer_view d (peer_update a f s) = peer_view d s"
  by (simp add: peer_view_def calls_for_def tdls_auto_find_peer_def peer_update_def find_in_update_other)

lemma view_peer_update_same:
  "(\<And>q. addr (f q) = addr q) \<Longrightarrow>
   peer_view d (peer_update d f s) = (extn s, map_option f (tdls_auto_find_peer s d), calls_for d s)"
  by (simp add: peer_view_def calls_for_def tdls_auto_find_peer_def peer_update_def find_in_update_same)

lemma view_emit:
  "peer_view d (emit c s) =
     (extn s, tdls_auto_find_peer s d, calls_for d s @ (if call_addr c = d then [c] else []))"
  by (simp add: peer_view_def calls_for_def tdls_auto_find_peer_def emit_def)

lemma view_set_timer: "peer_view d (tdls_auto_set_timer s m h) = peer_view d s"
  by (simp add: peer_view_def calls_for_def tdls_auto_find_peer_def tdls_auto_set_timer_def)

lemma view_cancel_timer: "peer_view d (tdls_auto_cancel_timer s h) = peer_view d s"
  by (simp add: peer_view_def calls_for_def tdls_auto_find_peer_def tdls_auto_cancel_timer_def)

lemma view_conn_count: "peer_view d (s\<lparr>conn_peer_count := n\<rparr>) = peer_view d s"
  by (simp add: peer_view_def calls_for_def tdls_auto_find_peer_def)

lemma view_peer_free_other: "d \<noteq> a \<Longrightarrow> peer_view d (tdls_auto_peer_free s a) = peer_view d s"
  by (simp add: peer_view_def calls_for_def tdls_auto_find_peer_def tdls_auto_peer_free_def
        Let_def emit_def find_in_delete_other)

lemmas view_other_simps = view_peer_update_other view_emit view_set_timer view_cancel_timer
  view_conn_count view_peer_free_other

lemma view_other:
  "d \<noteq> a \<Longrightarrow> peer_view d (wpas_tdls_auto_disconnect e s a) = peer_view d s"
  "d \<noteq> a \<Longrightarrow> peer_view d (tdls_auto_mode_stop e s a) = peer_view d s"
  "d \<noteq> a \<Longrightarrow> peer_view d (tdls_auto_peer_disconnected e s a) = peer_view d s"
proof (induction e s a and e s a and e s a
       rule: wpas_tdls_auto_disconnect_tdls_auto_mode_stop_tdls_auto_peer_disconnected.induct)
  case (1 e s a)
  then show ?case
    by (simp add: wpas_tdls_auto_disconnect.simps [of e s a] view_other_simps)
       (simp add: peer_view_def)
next
  case (2 e s a)
  then show ?case
    by (simp add: tdls_auto_mode_stop.simps [of e s a] view_other_simps Let_def
          split: option.splits)
next
  case (3 e s a)
  then show ?case
    by (simp add: tdls_auto_peer_disconnected.simps [of e s a] view_other_simps Let_def
          split: option.splits)
qed

lemma foldl_inv:
  assumes "\<And>s b. Q s \<Longrightarrow> Q (body s b)" and "Q s"
  shows "Q (foldl body s bs)"
  using assms(2) by (induction bs arbitrary: s) (auto intro: assms(1))

lemma foldl_view_other:
  assumes inv: "\<And>s b. Q s \<Longrightarrow> Q (body s b)"
    and other: "\<And>s b. Q s \<Longrightarrow> b \<noteq> d \<Longrightarrow> V (body s b) = V s"
    and "Q s" and "d \<notin> set bs"
  shows "V (foldl body s bs) = V s"
  using assms(3,4)
proof (induction bs arbitrary: s)
  case Nil
  then show ?case by simp
next
  case (Cons b bs)
  then have "V (foldl body (body s b) bs) = V (body s b)"
    by (auto intro: inv)
  moreover have "V (body s b) = V s"
    using Cons.prems by (intro other) auto
  ultimately show ?case by simp
qed

lemma foldl_view_once:
  assumes inv: "\<And>s b. Q s \<Longrightarrow> Q (body s b)"
    and other: "\<And>s b. Q s \<Longrightarrow> b \<noteq> d \<Longrightarrow> V (body s b) = V s"
    and at: "\<And>s. Q s \<Longrightarrow> V s = v \<Longrightarrow> V (body s d) = v'"
    and "Q s" and "V s = v" and "distinct bs" and "d \<in> set bs"
  shows "V (foldl body s bs) = v'"
  using assms(4-7)
proof (induction bs arbitrary: s)
  case Nil
  then show ?case by simp
next
  case (Cons b bs)
  show ?case
  proof (cases "b = d")
    case True
    with Cons.prems have "d \<notin> set bs" by simp
    then have "V (foldl body (body s d) bs) = V (body s d)"
      using Cons.prems(1) by (intro foldl_view_other [of Q body d V]) (auto intro: inv other)
    with True Cons.prems show ?thesis
      by (simp add: at)
  next
    case False
    with Cons.prems have "V (foldl body (body s b) bs) = v'"
      by (intro Cons.IH) (auto intro: inv simp: other)
    then show ?thesis by simp
  qed
qed

lemma distinct_peer_update:
  "(\<And>q. addr (f q) = addr q) \<Longrightarrow> addrs_distinct (peer_update a f s) = addrs_distinct s"
  by (simp add: addrs_distinct_def peer_update_def map_addr_update_in)

lemma distinct_emit: "addrs_distinct (emit c s) = addrs_distinct s"
  by (simp add: addrs_distinct_def emit_def)

lemma distinct_set_timer: "addrs_distinct (tdls_auto_set_timer s m h) = addrs_distinct s"
  by (simp add: addrs_distinct_def tdls_auto_set_timer_def)

lemma distinct_cancel_timer: "addrs_distinct (tdls_auto_cancel_timer s h) = addrs_distinct s"
  by (simp add: addrs_distinct_def tdls_auto_cancel_timer_def)

lemma distinct_conn_count: "addrs_distinct (s\<lparr>conn_peer_count := n\<rparr>) = addrs_distinct s"
  by (simp add: addrs_distinct_def)

lemma distinct_peer_free: "addrs_distinct s \<Longrightarrow> addrs_distinct (tdls_auto_peer_free s a)"
  by (simp add: addrs_distinct_def tdls_auto_peer_free_def Let_def emit_def distinct_delete_in)

lemmas distinct_simps = distinct_peer_update distinct_emit distinct_set_timer
  distinct_cancel_timer distinct_conn_count distinct_peer_free

lemma distinct_kept:
  "addrs_distinct s \<Longrightarrow> addrs_distinct (wpas_tdls_auto_disconnect e s a)"
  "addrs_distinct s \<Longrightarrow> addrs_distinct (tdls_auto_mode_stop e s a)"
  "addrs_distinct s \<Longrightarrow> addrs_distinct (tdls_auto_peer_disconnected e s a)"
proof (induction e s a and e s a and e s a
       rule: wpas_tdls_auto_disconnect_tdls_auto_mode_stop_tdls_auto_peer_disconnected.induct)
  case (1 e s a)
  then show ?case
    by (simp add: wpas_tdls_auto_disconnect.simps [of e s a] distinct_simps)
next
  case (2 e s a)
  then show ?case
    by (simp add: tdls_auto_mode_stop.simps [of e s a] distinct_simps Let_def
          split: option.splits)
next
  case (3 e s a)
  then show ?case
    by (simp add: tdls_auto_peer_disconnected.simps [of e s a] distinct_simps Let_def
          split: option.splits)
qed

lemma sampler_keeps [simp]:
  "addr (tdls_auto_get_peer_data_rate e p) = addr p"
  "connected (tdls_auto_get_peer_data_rate e p) = connected p"
  "incoming_peer (tdls_auto_get_peer_data_rate e p) = incoming_peer p"
  "fast_attempts (tdls_auto_get_peer_data_rate e p) = fast_attempts p"
  "low_rssi_vals (tdls_auto_get_peer_data_rate e p) = low_rssi_vals p"
  "rssi (tdls_auto_get_peer_data_rate e p) = rssi p"
  by (simp_all add: tdls_auto_get_peer_data_rate_def Let_def split: option.splits prod.splits)

lemma peer_update_fields [simp]:
  "extn (peer_update a f s) = extn s"
  "calls_for d (peer_update a f s) = calls_for d s"
  "conn_peer_count (peer_update a f s) = conn_peer_count s"
  "peer_count (peer_update a f s) = peer_count s"
  by (simp_all add: peer_update_def calls_for_def)

lemma emit_fields [simp]:
  "extn (emit c s) = extn s"
  "tdls_auto_find_peer (emit c s) d = tdls_auto_find_peer s d"
  "calls_for d (emit c s) = calls_for d s @ (if call_addr c = d then [c] else [])"
  by (simp_all add: emit_def calls_for_def tdls_auto_find_peer_def)

text \<open>The view of an address after the three mutually recursive functions ran for it.\<close>

lemma view_peer_free_same:
  "addrs_distinct s \<Longrightarrow>
   peer_view d (tdls_auto_peer_free s d) = (extn s, None, calls_for d s @ [Monitor_traffic d False])"
  by (simp add: peer_view_def calls_for_def tdls_auto_find_peer_def tdls_auto_peer_free_def
        Let_def emit_def find_in_delete_same addrs_distinct_def)

lemma view_stop_not_connected:
  assumes "addrs_distinct s" "tdls_auto_find_peer s d = Some p" "\<not> connected p"
  shows "peer_view d (tdls_auto_mode_stop e s d) = (extn s, None, calls_for d s @ [Monitor_traffic d False])"
  using assms
  by (simp add: tdls_auto_mode_stop.simps [of e s d] Let_def view_cancel_timer view_peer_free_same)

lemma view_disconnected:
  assumes "addrs_distinct s" "tdls_auto_find_peer s d = Some p"
  shows "peer_view d (tdls_auto_peer_disconnected e s d) =
          (if incoming_peer p
           then (extn s, None, calls_for d s @ [Monitor_traffic d False])
           else (extn s, Some (p\<lparr>connected := False, low_rssi_vals := 0, fast_attempts := 0\<rparr>),
                 calls_for d s))"
proof (cases "incoming_peer p")
  case True
  have "peer_view d (tdls_auto_mode_stop e (peer_update d (\<lambda>q. q\<lparr>connected := False\<rparr>) s) d)
        = (extn s, None, calls_for d s @ [Monitor_traffic d False])"
    using assms
    by (subst view_stop_not_connected [where p = "p\<lparr>connected := False\<rparr>"])
       (simp_all add: distinct_simps find_peer_update_same)
  with True assms show ?thesis
    by (simp add: tdls_auto_peer_disconnected.simps [of e s d] Let_def view_conn_count)
next
  case False
  with assms show ?thesis
    by (simp add: tdls_auto_peer_disconnected.simps [of e s d] Let_def view_conn_count
          view_set_timer view_peer_update_same find_peer_update_same)
qed

lemma view_disconnect:
  assumes "addrs_distinct s" "tdls_auto_find_peer s d = Some p"
  shows "peer_view d (wpas_tdls_auto_disconnect e s d) =
          (if \<not> disconnect_reenters e d then (extn s, Some p, calls_for d s @ [Disconnect d])
           else if incoming_peer p
           then (extn s, None, calls_for d s @ [Disconnect d, Monitor_traffic d False])
           else (extn s, Some (p\<lparr>connected := False, low_rssi_vals := 0, fast_attempts := 0\<rparr>),
                 calls_for d s @ [Disconnect d]))"
proof -
  have "addrs_distinct (emit (Disconnect d) s)" "tdls_auto_find_peer (emit (Disconnect d) s) d = Some p"
    using assms by (simp_all add: distinct_simps)
  from view_disconnected [OF this] assms show ?thesis
    by (simp add: wpas_tdls_auto_disconnect.simps [of e s d] view_emit)
qed

subsection \<open>One firing of the RSSI handler, seen from one peer\<close>

lemma walk_inv:
  assumes "\<And>s b t. Q s \<Longrightarrow> body s b = Some t \<Longrightarrow> Q t" and "Q s" and "walk body s bs = Some t"
  shows "Q t"
  using assms(2,3)
proof (induction bs arbitrary: s)
  case Nil
  then show ?case by simp
next
  case (Cons b bs)
  then show ?case
    by (auto split: option.splits intro: assms(1))
qed





lemma set_update_in: "q \<in> set (update_in a f ps) \<Longrightarrow> q \<in> set ps \<or> (\<exists>q0 \<in> set ps. q = f q0)"
  by (induction ps) (auto split: if_splits)

lemma set_delete_in: "q \<in> set (delete_in a ps) \<Longrightarrow> q \<in> set ps"
  by (induction ps) (auto split: if_splits)

lemma safe_peer_update:
  assumes "\<forall>q. addr (f q) = addr q"
    and "\<forall>q. connected (f q) \<and> incoming_peer (f q) \<longrightarrow> connected q \<and> incoming_peer q"
    and "reentry_safe e s"
  shows "reentry_safe e (peer_update a f s)"
  unfolding reentry_safe_def peer_update_def
proof (intro ballI impI)
  fix q
  assume q: "q \<in> set (peers (s\<lparr>peers := update_in a f (peers s)\<rparr>))"
    "connected q \<and> incoming_peer q"
  then have "q \<in> set (update_in a f (peers s))" by simp
  then consider "q \<in> set (peers s)" | q0 where "q0 \<in> set (peers s)" "q = f q0"
    using set_update_in [of q a f "peers s"] by blast
  then show "\<not> disconnect_reenters e (addr q)"
  proof cases
    case 1
    with q(2) assms(3) show ?thesis unfolding reentry_safe_def by blast
  next
    case 2
    with q(2) assms(2) have "connected q0 \<and> incoming_peer q0" by blast
    moreover have "addr q = addr q0" using 2 assms(1) by blast
    ultimately show ?thesis using 2(1) assms(3) unfolding reentry_safe_def by auto
  qed
qed

lemma safe_emit: "reentry_safe e (emit c s) = reentry_safe e s"
  by (simp add: reentry_safe_def emit_def)

lemma safe_set_timer: "reentry_safe e (tdls_auto_set_timer s m h) = reentry_safe e s"
  by (simp add: reentry_safe_def tdls_auto_set_timer_def)

lemma safe_cancel_timer: "reentry_safe e (tdls_auto_cancel_timer s h) = reentry_safe e s"
  by (simp add: reentry_safe_def tdls_auto_cancel_timer_def)

lemma safe_conn_count: "reentry_safe e (s\<lparr>conn_peer_count := n\<rparr>) = reentry_safe e s"
  by (simp add: reentry_safe_def)

lemma safe_peer_free: "reentry_safe e s \<Longrightarrow> reentry_safe e (tdls_auto_peer_free s a)"
  by (auto simp: reentry_safe_def tdls_auto_peer_free_def Let_def emit_def dest: set_delete_in)

lemmas safe_simps = safe_peer_update safe_emit safe_set_timer safe_cancel_timer
  safe_conn_count safe_peer_free

lemma safe_kept:
  "reentry_safe e' s \<Longrightarrow> reentry_safe e' (wpas_tdls_auto_disconnect e s a)"
  "reentry_safe e' s \<Longrightarrow> reentry_safe e' (tdls_auto_mode_stop e s a)"
  "reentry_safe e' s \<Longrightarrow> reentry_safe e' (tdls_auto_peer_disconnected e s a)"
proof (induction e s a and e s a and e s a
       rule: wpas_tdls_auto_disconnect_tdls_auto_mode_stop_tdls_auto_peer_disconnected.induct)
  case (1 e s a)
  then show ?case
    by (simp add: wpas_tdls_auto_disconnect.simps [of e s a] safe_simps)
next
  case (2 e s a)
  then show ?case
    by (simp add: tdls_auto_mode_stop.simps [of e s a] safe_simps Let_def
          split: option.splits)
next
  case (3 e s a)
  then show ?case
    by (simp add: tdls_auto_peer_disconnected.simps [of e s a] safe_simps Let_def
          split: option.splits)
qed

lemma rssi_peer_cases:
  assumes "rssi_teardown_peer e s b = Some t"
  obtains "t = s"
  | f where "t = peer_update b f (peer_update b (tdls_auto_get_connected_sta_rssi e) s)"
      "f = (\<lambda>q. q\<lparr>low_rssi_vals := 0\<rparr>) \<or> f = (\<lambda>q. q\<lparr>low_rssi_vals := low_rssi_vals q + 1\<rparr>)"
  | "t = peer_update b (\<lambda>q. q\<lparr>low_rssi_vals := 0\<rparr>)
           (wpas_tdls_auto_disconnect e
              (peer_update b (\<lambda>q. q\<lparr>low_rssi_vals := low_rssi_vals q + 1\<rparr>)
                 (peer_update b (tdls_auto_get_connected_sta_rssi e) s)) b)"
proof (cases "tdls_auto_find_peer s b")
  case None
  with assms that(1) show ?thesis by (simp add: rssi_teardown_peer_def)
next
  case (Some p)
  show ?thesis
  proof (cases "connected p")
    case False
    with Some assms that(1) show ?thesis by (simp add: rssi_teardown_peer_def)
  next
    case True
    let ?s1 = "peer_update b (tdls_auto_get_connected_sta_rssi e) s"
    let ?s2 = "peer_update b (\<lambda>q. q\<lparr>low_rssi_vals := low_rssi_vals q + 1\<rparr>) ?s1"
    let ?s3 = "wpas_tdls_auto_disconnect e ?s2 b"
    have "t = peer_update b (\<lambda>q. q\<lparr>low_rssi_vals := 0\<rparr>) ?s1 \<or> t = ?s2
          \<or> t = peer_update b (\<lambda>q. q\<lparr>low_rssi_vals := 0\<rparr>) ?s3"
      using assms Some True
      by (simp add: rssi_teardown_peer_def Let_def split: if_splits option.splits)
    with that(2,3) show ?thesis by blast
  qed
qed

lemma rssi_peer_safe:
  assumes "reentry_safe e' s" "rssi_teardown_peer e s b = Some t"
  shows "reentry_safe e' t"
  using assms(2)
proof (cases rule: rssi_peer_cases)
  case 1
  with assms(1) show ?thesis by simp
next
  case (2 f)
  with assms(1) show ?thesis
    by (auto simp: safe_simps tdls_auto_get_connected_sta_rssi_def)
next
  case 3
  have "reentry_safe e' (peer_update b (\<lambda>q. q\<lparr>low_rssi_vals := low_rssi_vals q + 1\<rparr>)
          (peer_update b (tdls_auto_get_connected_sta_rssi e) s))"
    using assms(1) by (simp add: safe_simps tdls_auto_get_connected_sta_rssi_def)
  then have "reentry_safe e' (wpas_tdls_auto_disconnect e
          (peer_update b (\<lambda>q. q\<lparr>low_rssi_vals := low_rssi_vals q + 1\<rparr>)
             (peer_update b (tdls_auto_get_connected_sta_rssi e) s)) b)"
    by (rule safe_kept(1))
  then show ?thesis
    unfolding 3 by (simp add: safe_peer_update)
qed

lemma rssi_peer_distinct:
  assumes "addrs_distinct s" "rssi_teardown_peer e s b = Some t"
  shows "addrs_distinct t"
  using assms(2)
proof (cases rule: rssi_peer_cases)
  case 1
  with assms(1) show ?thesis by simp
next
  case (2 f)
  with assms(1) show ?thesis
    by (auto simp: distinct_simps tdls_auto_get_connected_sta_rssi_def)
next
  case 3
  with assms(1) show ?thesis
    by (simp add: distinct_simps distinct_kept tdls_auto_get_connected_sta_rssi_def)
qed

lemma rssi_peer_other:
  assumes "b \<noteq> d" "rssi_teardown_peer e s b = Some t"
  shows "peer_view d t = peer_view d s"
  using assms(2)
proof (cases rule: rssi_peer_cases)
  case 1
  then show ?thesis by simp
next
  case (2 f)
  with assms(1) show ?thesis
    by (auto simp: view_other_simps tdls_auto_get_connected_sta_rssi_def)
next
  case 3
  with assms(1) show ?thesis
    by (simp add: view_other view_other_simps tdls_auto_get_connected_sta_rssi_def)
qed



lemma rssi_tick_kept:
  assumes "tdls_auto_rssi_teardown_timeout e s = Some t"
  shows "addrs_distinct s \<Longrightarrow> addrs_distinct t"
    and "reentry_safe e' s \<Longrightarrow> reentry_safe e' t"
proof -
  from assms obtain u where u: "walk (rssi_teardown_peer e) s (map addr (peers s)) = Some u"
    and t: "t = (if conn_peer_count u = 0 then u
                 else tdls_auto_set_timer u (tdls_auto_rssi_teardown_period (extn u))
                        Rssi_teardown_timeout)"
    by (auto simp: tdls_auto_rssi_teardown_timeout_def split: option.splits)
  show "addrs_distinct t" if "addrs_distinct s"
    using walk_inv [where Q = addrs_distinct, OF rssi_peer_distinct that u]
    by (simp add: t distinct_simps)
  show "reentry_safe e' t" if "reentry_safe e' s"
    using walk_inv [where Q = "reentry_safe e'", OF rssi_peer_safe that u]
    by (simp add: t safe_simps)
qed


text \<open>
  The write after the call, when the call has freed the peer: a connected incoming peer
  whose disconnect delivers the \<open>disconnected\<close> event before it returns, and whose bad
  RSSI count passes \<open>rssi_teardown_count\<close>, is removed inside the call, and the handler
  then writes \<open>low_rssi_vals\<close> of the freed peer. The firing has no defined result.
\<close>

lemma rssi_peer_freed:
  assumes "addrs_distinct s" "peer_view d s = (x, Some p, cs)" "connected p"
    and "incoming_peer p" "disconnect_reenters e d"
    and "get_rssi e d < tdls_auto_rssi_teardown_threshold x"
    and "tdls_auto_rssi_teardown_count x < low_rssi_vals p + 1"
  shows "rssi_teardown_peer e s d = None"
proof -
  from assms(2) have x: "extn s = x" and f: "tdls_auto_find_peer s d = Some p"
    and c: "calls_for d s = cs"
    by (simp_all add: peer_view_def)
  have ad: "addr p = d"
    using f by (auto simp: tdls_auto_find_peer_def dest: find_in_addr)
  let ?s2 = "peer_update d (\<lambda>q. q\<lparr>low_rssi_vals := low_rssi_vals q + 1\<rparr>)
               (peer_update d (tdls_auto_get_connected_sta_rssi e) s)"
  have s2: "addrs_distinct ?s2"
    "tdls_auto_find_peer ?s2 d = Some (p\<lparr>rssi := get_rssi e d, low_rssi_vals := low_rssi_vals p + 1\<rparr>)"
    using assms(1) f ad
    by (simp_all add: distinct_simps find_peer_update_same tdls_auto_get_connected_sta_rssi_def)
  note vd = view_disconnect [OF s2, of e, unfolded peer_view_def]
  have "tdls_auto_find_peer (wpas_tdls_auto_disconnect e ?s2 d) d = None"
    using vd assms(3-5) by simp
  moreover have "\<not> tdls_auto_rssi_teardown_threshold x \<le> get_rssi e d"
    "\<not> low_rssi_vals p + 1 \<le> tdls_auto_rssi_teardown_count x"
    using assms(6,7) by (simp_all add: not_le)
  ultimately show ?thesis
    using f x ad assms(3)
    by (simp add: rssi_teardown_peer_def Let_def tdls_auto_get_connected_sta_rssi_def)
qed

lemma walk_undefined:
  assumes inv: "\<And>s b t. Q s \<Longrightarrow> body s b = Some t \<Longrightarrow> Q t"
    and other: "\<And>s b t. Q s \<Longrightarrow> b \<noteq> d \<Longrightarrow> body s b = Some t \<Longrightarrow> V t = V s"
    and at: "\<And>s. Q s \<Longrightarrow> V s = v \<Longrightarrow> body s d = None"
    and "Q s" and "V s = v" and "d \<in> set bs"
  shows "walk body s bs = None"
  using assms(4-6)
proof (induction bs arbitrary: s)
  case Nil
  then show ?case by simp
next
  case (Cons b bs)
  show ?case
  proof (cases "body s b")
    case None
    then show ?thesis by simp
  next
    case (Some u)
    have Qu: "Q u" using Cons.prems(1) Some by (rule inv)
    have bd: "b \<noteq> d"
      using at [OF Cons.prems(1,2)] Some by auto
    then have "V u = V s"
      using Cons.prems(1) Some by (auto intro: other)
    with bd Cons.prems Qu have "walk body u bs = None"
      by (intro Cons.IH [of u]) auto
    with Some show ?thesis by simp
  qed
qed

lemma rssi_tick_undefined:
  assumes "addrs_distinct s" "tdls_auto_find_peer s d = Some p" "connected p"
    and "incoming_peer p" "disconnect_reenters e d"
    and "get_rssi e d < tdls_auto_rssi_teardown_threshold (extn s)"
    and "tdls_auto_rssi_teardown_count (extn s) < low_rssi_vals p + 1"
  shows "tdls_auto_rssi_teardown_timeout e s = None"
proof -
  have mem: "d \<in> set (map addr (peers s))"
    using assms(2) find_in_None_iff [of "peers s" d] by (simp add: tdls_auto_find_peer_def)
  have v: "peer_view d s = (extn s, Some p, calls_for d s)"
    using assms(2) by (simp add: peer_view_def)
  have "walk (rssi_teardown_peer e) s (map addr (peers s)) = None"
  proof (rule walk_undefined [where Q = addrs_distinct and V = "peer_view d" and d = d
        and body = "rssi_teardown_peer e" and v = "(extn s, Some p, calls_for d s)"])
    fix s' b t
    assume "addrs_distinct s'" "rssi_teardown_peer e s' b = Some t"
    then show "addrs_distinct t" by (rule rssi_peer_distinct)
  next
    fix s' b t
    assume "b \<noteq> d" "rssi_teardown_peer e s' b = Some t"
    then show "peer_view d t = peer_view d s'" by (rule rssi_peer_other)
  next
    fix s'
    assume "addrs_distinct s'" "peer_view d s' = (extn s, Some p, calls_for d s)"
    then show "rssi_teardown_peer e s' d = None"
      using assms(3-7) by (rule rssi_peer_freed)
  qed (rule assms(1) v mem)+
  then show ?thesis by (simp add: tdls_auto_rssi_teardown_timeout_def)
qed

subsection \<open>One firing of the fast and of the slow handler, seen from one peer\<close>

lemma find_peer_update_other:
  "(\<And>q. addr (f q) = addr q) \<Longrightarrow> d \<noteq> a \<Longrightarrow>
   tdls_auto_find_peer (peer_update a f s) d = tdls_auto_find_peer s d"
  by (simp add: tdls_auto_find_peer_def peer_update_def find_in_update_other)

lemma fast_peer_addrs:
  "map addr (peers (fst (fast_connect_peer e sf b))) = map addr (peers (fst sf))"
  by (cases sf)
     (simp add: fast_connect_peer_def Let_def peer_update_def emit_def map_addr_update_in
        split: option.splits)

lemma fast_peer_other:
  "b \<noteq> d \<Longrightarrow> peer_view d (fst (fast_connect_peer e sf b)) = peer_view d (fst sf)"
  by (cases sf)
     (simp add: fast_connect_peer_def Let_def view_other_simps find_peer_update_other
        peer_view_def split: option.splits)

lemma fast_peer_at:
  assumes "peer_view d (fst sf) = (x, Some p, cs)"
  shows "peer_view d (fst (fast_connect_peer e sf d)) =
     (if connected p \<or> TDLS_AUTO_MAX_FAST_CONN_ATTEMPTS < fast_attempts p then (x, Some p, cs)
      else (x, Some (tdls_auto_get_peer_data_rate e (p\<lparr>fast_attempts := fast_attempts p + 1\<rparr>)),
            cs @ (if data_rate (tdls_auto_get_peer_data_rate e (p\<lparr>fast_attempts := fast_attempts p + 1\<rparr>))
                      < tdls_auto_data_connect_threshold x
                  then [] else [Send_discovery d])))"
proof -
  obtain s fl where sf: "sf = (s, fl)" by (cases sf)
  from assms sf have "extn s = x" "tdls_auto_find_peer s d = Some p" "calls_for d s = cs"
    by (simp_all add: peer_view_def)
  then show ?thesis
    by (simp add: sf fast_connect_peer_def Let_def view_emit view_peer_update_same
          find_peer_update_same)
       (simp add: peer_view_def)
qed

lemma fast_tick_addrs:
  "map addr (peers (tdls_auto_fast_connect_timeout e s)) = map addr (peers s)"
proof -
  have "map addr (peers (fst (foldl (fast_connect_peer e) (s, False) bs))) = map addr (peers s)" for bs
    using foldl_inv [where Q = "\<lambda>sf. map addr (peers (fst sf)) = map addr (peers s)"
                       and body = "fast_connect_peer e" and s = "(s, False)" and bs = bs]
    by (simp add: fast_peer_addrs)
  from this [of "map addr (peers s)"] show ?thesis
    by (cases "foldl (fast_connect_peer e) (s, False) (map addr (peers s))")
       (simp add: tdls_auto_fast_connect_timeout_def tdls_auto_set_timer_def)
qed

lemma fast_tick_view:
  assumes "addrs_distinct s" "tdls_auto_find_peer s d = Some p"
  shows "peer_view d (tdls_auto_fast_connect_timeout e s) =
     (if connected p \<or> TDLS_AUTO_MAX_FAST_CONN_ATTEMPTS < fast_attempts p
      then (extn s, Some p, calls_for d s)
      else (extn s, Some (tdls_auto_get_peer_data_rate e (p\<lparr>fast_attempts := fast_attempts p + 1\<rparr>)),
            calls_for d s @
              (if data_rate (tdls_auto_get_peer_data_rate e (p\<lparr>fast_attempts := fast_attempts p + 1\<rparr>))
                    < tdls_auto_data_connect_threshold (extn s)
               then [] else [Send_discovery d])))"
    (is "_ = ?R")
proof -
  have mem: "d \<in> set (map addr (peers s))"
    using assms(2) find_in_None_iff [of "peers s" d] by (simp add: tdls_auto_find_peer_def)
  have dist: "distinct (map addr (peers s))"
    using assms(1) by (simp add: addrs_distinct_def)
  have v: "peer_view d (fst (s, False)) = (extn s, Some p, calls_for d s)"
    using assms(2) by (simp add: peer_view_def)
  have "peer_view d (tdls_auto_fast_connect_timeout e s)
      = peer_view d (fst (foldl (fast_connect_peer e) (s, False) (map addr (peers s))))"
    by (simp add: tdls_auto_fast_connect_timeout_def view_set_timer split: prod.splits)
  also have "\<dots> = ?R"
  proof (rule foldl_view_once [where Q = "\<lambda>sf. True" and V = "\<lambda>sf. peer_view d (fst sf)"
                                and v = "(extn s, Some p, calls_for d s)"])
    show "\<And>t b. b \<noteq> d \<Longrightarrow>
            peer_view d (fst (fast_connect_peer e t b)) = peer_view d (fst t)"
      by (rule fast_peer_other)
    show "\<And>t. peer_view d (fst t) = (extn s, Some p, calls_for d s) \<Longrightarrow>
            peer_view d (fst (fast_connect_peer e t d)) = ?R"
      by (rule fast_peer_at)
  qed (rule TrueI v dist mem)+
  finally show ?thesis .
qed

lemma slow_peer_other:
  "b \<noteq> d \<Longrightarrow> peer_view d (slow_connect_peer e s b) = peer_view d s"
  by (simp add: slow_connect_peer_def Let_def view_other_simps find_peer_update_other
        peer_view_def split: option.splits)

lemma slow_peer_at:
  assumes "peer_view d s = (x, Some p, cs)"
  shows "peer_view d (slow_connect_peer e s d) =
     (if connected p \<or> fast_attempts p \<le> TDLS_AUTO_MAX_FAST_CONN_ATTEMPTS then (x, Some p, cs)
      else (x, Some (tdls_auto_get_peer_data_rate e p),
            cs @ (if data_rate (tdls_auto_get_peer_data_rate e p) < tdls_auto_data_connect_threshold x
                  then [] else [Send_discovery d])))"
proof -
  from assms have "extn s = x" "tdls_auto_find_peer s d = Some p" "calls_for d s = cs"
    by (simp_all add: peer_view_def)
  then show ?thesis
    by (simp add: slow_connect_peer_def Let_def view_emit view_peer_update_same
          find_peer_update_same)
       (simp add: peer_view_def)
qed

lemma slow_tick_view:
  assumes "addrs_distinct s" "tdls_auto_find_peer s d = Some p"
  shows "peer_view d (tdls_auto_slow_connect_timeout e s) =
     (if connected p \<or> fast_attempts p \<le> TDLS_AUTO_MAX_FAST_CONN_ATTEMPTS
      then (extn s, Some p, calls_for d s)
      else (extn s, Some (tdls_auto_get_peer_data_rate e p),
            calls_for d s @
              (if data_rate (tdls_auto_get_peer_data_rate e p) < tdls_auto_data_connect_threshold (extn s)
               then [] else [Send_discovery d])))"
    (is "_ = ?R")
proof -
  have mem: "d \<in> set (map addr (peers s))"
    using assms(2) find_in_None_iff [of "peers s" d] by (simp add: tdls_auto_find_peer_def)
  have dist: "distinct (map addr (peers s))"
    using assms(1) by (simp add: addrs_distinct_def)
  have v: "peer_view d s = (extn s, Some p, calls_for d s)"
    using assms(2) by (simp add: peer_view_def)
  have "peer_view d (tdls_auto_slow_connect_timeout e s)
      = peer_view d (foldl (slow_connect_peer e) s (map addr (peers s)))"
    by (simp add: tdls_auto_slow_connect_timeout_def Let_def view_set_timer)
  also have "\<dots> = ?R"
  proof (rule foldl_view_once [where Q = "\<lambda>s. True" and v = "(extn s, Some p, calls_for d s)"])
    show "\<And>t b. b \<noteq> d \<Longrightarrow> peer_view d (slow_connect_peer e t b) = peer_view d t"
      by (rule slow_peer_other)
    show "\<And>t. peer_view d t = (extn s, Some p, calls_for d s) \<Longrightarrow>
            peer_view d (slow_connect_peer e t d) = ?R"
      by (rule slow_peer_at)
  qed (rule TrueI v dist mem)+
  finally show ?thesis .
qed

text \<open>A firing calls nothing for an address that is not tracked.\<close>

lemma fast_tick_untracked:
  assumes "tdls_auto_find_peer s d = None"
  shows "peer_view d (tdls_auto_fast_connect_timeout e s) = peer_view d s"
proof -
  have mem: "d \<notin> set (map addr (peers s))"
    using assms find_in_None_iff [of "peers s" d] by (simp add: tdls_auto_find_peer_def)
  have "peer_view d (tdls_auto_fast_connect_timeout e s)
      = peer_view d (fst (foldl (fast_connect_peer e) (s, False) (map addr (peers s))))"
    by (simp add: tdls_auto_fast_connect_timeout_def view_set_timer split: prod.splits)
  also have "\<dots> = peer_view d (fst (s, False))"
    using mem
    by (intro foldl_view_other [where Q = "\<lambda>sf. True" and V = "\<lambda>sf. peer_view d (fst sf)"
                                 and d = d])
       (simp_all add: fast_peer_other)
  finally show ?thesis by simp
qed

lemma fast_ticks_attempts:
  assumes "addrs_distinct s" "tdls_auto_find_peer s d = Some p" "\<not> connected p"
    and "fast_attempts p \<le> 21"
  shows "\<exists>q. tdls_auto_find_peer (fast_ticks es s) d = Some q \<and> \<not> connected q
           \<and> fast_attempts q = min (fast_attempts p + int (length es)) 21
           \<and> addrs_distinct (fast_ticks es s) \<and> extn (fast_ticks es s) = extn s"
  using assms
proof (induction es arbitrary: s p)
  case Nil
  then show ?case by simp
next
  case (Cons e es)
  let ?s1 = "tdls_auto_fast_connect_timeout e s"
  let ?p1 = "if TDLS_AUTO_MAX_FAST_CONN_ATTEMPTS < fast_attempts p then p
             else tdls_auto_get_peer_data_rate e (p\<lparr>fast_attempts := fast_attempts p + 1\<rparr>)"
  have v: "tdls_auto_find_peer ?s1 d = Some ?p1" "extn ?s1 = extn s"
    using fast_tick_view [OF Cons.prems(1,2), of e] Cons.prems(3)
    by (auto simp: peer_view_def split: if_splits)
  have d1: "addrs_distinct ?s1"
    using Cons.prems(1) by (simp add: addrs_distinct_def fast_tick_addrs)
  have c1: "\<not> connected ?p1" "fast_attempts ?p1 \<le> 21"
    "fast_attempts ?p1 = min (fast_attempts p + 1) 21"
    using Cons.prems(3,4) by (auto simp: TDLS_AUTO_MAX_FAST_CONN_ATTEMPTS_def)
  from Cons.IH [OF d1 v(1) c1(1,2)] show ?case
    by (auto simp: v(2) c1(3))
qed

subsection \<open>Stopping a peer that is not connected, and the incoming peer\<close>

lemma zeroed_peer_fields [simp]:
  "addr (zeroed_peer a) = a" "\<not> connected (zeroed_peer a)" "\<not> incoming_peer (zeroed_peer a)"
  "fast_attempts (zeroed_peer a) = 0" "low_rssi_vals (zeroed_peer a) = 0"
  by (simp_all add: zeroed_peer_def)

lemma stop_not_connected:
  assumes "tdls_auto_find_peer s a = Some p" "\<not> connected p"
  shows "tdls_auto_mode_stop e s a =
     (if peer_count (tdls_auto_peer_free s a) = 0
      then tdls_auto_cancel_timer (tdls_auto_cancel_timer (tdls_auto_peer_free s a) Fast_connect_timeout)
             Slow_connect_timeout
      else tdls_auto_peer_free s a)"
  using assms by (simp add: tdls_auto_mode_stop.simps [of e s a] Let_def)

lemma disconnected_incoming:
  assumes "tdls_auto_find_peer s a = Some p" "incoming_peer p"
  shows "tdls_auto_peer_disconnected e s a =
     (tdls_auto_mode_stop e (peer_update a (\<lambda>q. q\<lparr>connected := False\<rparr>) s) a)
       \<lparr>conn_peer_count :=
          conn_peer_count (tdls_auto_mode_stop e (peer_update a (\<lambda>q. q\<lparr>connected := False\<rparr>) s) a) - 1\<rparr>"
  using assms by (simp add: tdls_auto_peer_disconnected.simps [of e s a] Let_def)

lemma connected_unknown:
  assumes "tdls_auto_find_peer s a = None" "monitor_traffic e a True = 0" "os_zalloc_ok e 0"
  shows "peers (tdls_auto_peer_connected e s a) =
           tdls_auto_get_peer_data_rate e ((zeroed_peer a)\<lparr>incoming_peer := True, connected := True\<rparr>)
           # peers s"
    and "peer_count (tdls_auto_peer_connected e s a) = peer_count s + 1"
    and "conn_peer_count (tdls_auto_peer_connected e s a) = conn_peer_count s + 1"
    and "calls (tdls_auto_peer_connected e s a) =
           calls s @ [Monitor_traffic a False, Monitor_traffic a True]"
    and "extn (tdls_auto_peer_connected e s a) = extn s"
    and "timeouts (tdls_auto_peer_connected e s a) Fast_connect_timeout
           = Some (1000 * tdls_auto_fast_connect_period (extn s))"
  using assms
  by (simp_all add: tdls_auto_peer_connected_def tdls_auto_add_peer_def Let_def
        tdls_auto_peer_add_to_list_def tdls_auto_find_peer_def emit_def tdls_auto_set_timer_def
        peer_update_def zeroed_peer_def)

subsection \<open>One peer per address, in every reachable state\<close>

lemma add_peer_distinct:
  assumes "addrs_distinct s" "tdls_auto_find_peer s a = None"
  shows "addrs_distinct (fst (tdls_auto_add_peer e s a))"
  using assms find_in_None_iff [of "peers s" a]
  by (simp add: tdls_auto_add_peer_def Let_def tdls_auto_peer_add_to_list_def emit_def
        tdls_auto_set_timer_def addrs_distinct_def tdls_auto_find_peer_def
        split: option.splits)

lemma start_distinct:
  "addrs_distinct s \<Longrightarrow> addrs_distinct (fst (tdls_auto_mode_start e s a))"
  by (auto simp: tdls_auto_mode_start_def dest: add_peer_distinct [of s a e]
        split: option.splits prod.splits bool.splits)

lemma connected_distinct:
  assumes "addrs_distinct s"
  shows "addrs_distinct (tdls_auto_peer_connected e s a)"
proof (cases "tdls_auto_find_peer s a")
  case None
  let ?s0 = "s\<lparr>conn_peer_count := conn_peer_count s + 1\<rparr>"
  have "addrs_distinct (fst (tdls_auto_add_peer e ?s0 a))"
    using assms None by (intro add_peer_distinct) (simp_all add: addrs_distinct_def tdls_auto_find_peer_def)
  with None show ?thesis
    by (auto simp: tdls_auto_peer_connected_def Let_def distinct_simps tdls_auto_find_peer_def
          split: prod.splits bool.splits)
next
  case (Some p)
  with assms show ?thesis
    by (simp add: tdls_auto_peer_connected_def Let_def distinct_simps tdls_auto_find_peer_def)
qed

lemma discovery_response_distinct:
  "addrs_distinct s \<Longrightarrow> addrs_distinct (tdls_auto_discovery_response e s a r)"
  by (simp add: tdls_auto_discovery_response_def Let_def distinct_simps split: option.splits)

lemma slow_tick_distinct:
  "addrs_distinct s \<Longrightarrow> addrs_distinct (tdls_auto_slow_connect_timeout e s)"
  by (simp add: tdls_auto_slow_connect_timeout_def Let_def distinct_simps
        foldl_inv [where Q = addrs_distinct] slow_connect_peer_def split: option.splits)

lemma data_peer_distinct:
  "addrs_distinct s \<Longrightarrow> addrs_distinct (data_teardown_peer e s b)"
  by (simp add: data_teardown_peer_def Let_def distinct_simps distinct_kept split: option.splits)

lemma data_tick_distinct:
  "addrs_distinct s \<Longrightarrow> addrs_distinct (tdls_auto_data_teardown_timeout e s)"
  by (simp add: tdls_auto_data_teardown_timeout_def Let_def distinct_simps
        foldl_inv [where Q = addrs_distinct] data_peer_distinct)

lemma remove_peers_distinct:
  "addrs_distinct s \<Longrightarrow> addrs_distinct (tdls_auto_remove_peers e s k)"
  by (simp add: tdls_auto_remove_peers_def remove_peer_def distinct_simps distinct_kept
        foldl_inv [where Q = addrs_distinct])

lemma fast_tick_distinct:
  "addrs_distinct s \<Longrightarrow> addrs_distinct (tdls_auto_fast_connect_timeout e s)"
  by (simp add: addrs_distinct_def fast_tick_addrs)

lemma fresh_ctx_distinct: "addrs_distinct (fresh_ctx glue)"
  by (simp add: fresh_ctx_def addrs_distinct_def)

lemma addrs_distinct_kept:
  "addrs_distinct (fresh_ctx glue) \<and>
   (addrs_distinct s \<longrightarrow>
     addrs_distinct (fst (tdls_auto_mode_start e s a))
   \<and> addrs_distinct (tdls_auto_mode_stop e s a)
   \<and> addrs_distinct (tdls_auto_peer_connected e s a)
   \<and> addrs_distinct (tdls_auto_peer_disconnected e s a)
   \<and> addrs_distinct (tdls_auto_discovery_response e s a r)
   \<and> addrs_distinct (tdls_auto_remove_peers e s k)
   \<and> addrs_distinct (tdls_auto_fast_connect_timeout e s)
   \<and> addrs_distinct (tdls_auto_slow_connect_timeout e s)
   \<and> addrs_distinct (tdls_auto_data_teardown_timeout e s)
   \<and> (\<forall>t. tdls_auto_rssi_teardown_timeout e s = Some t \<longrightarrow> addrs_distinct t))"
  by (auto simp: start_distinct distinct_kept connected_distinct discovery_response_distinct
        remove_peers_distinct slow_tick_distinct data_tick_distinct
        fresh_ctx_distinct fast_tick_distinct intro: rssi_tick_kept(1))

section \<open>Incoming peers\<close>

lemma started_ctx_facts:
  "addrs_distinct started_ctx"
  "tdls_auto_find_peer started_ctx 1 = Some (zeroed_peer 1)"
  "tdls_auto_find_peer started_ctx 2 = None"
  "extn started_ctx = example_conf"
  by (simp_all add: eval_defs addrs_distinct_def)


text \<open>
  C9. For an address \<open>a\<close> the registry does not hold, when traffic accounting for \<open>a\<close>
  can be enabled and the peer can be allocated: \<open>connected(a)\<close> creates a peer with
  \<open>incoming_peer\<close> and \<open>connected\<close> set; a following \<open>disconnected(a)\<close> removes it,
  so that the registry, \<open>peer_count\<close> and \<open>conn_peer_count\<close> are what they were
  before the two events. The two events call nothing but the traffic accounting for
  \<open>a\<close> (disable, enable, disable): no discovery, no connect, no disconnect. The
  \<open>disconnected\<close> event does not arm the fast-connect timer: with no peer left the
  timer is cancelled, and with other peers left the timeout pending is the one
  \<^verbatim>\<open>tdls_auto_add_peer\<close> registered during \<open>connected(a)\<close>. A firing of the
  fast-connect handler after the two events calls nothing for \<open>a\<close>.
\<close>

theorem C9_incoming_peer_round_trip:
  assumes "tdls_auto_find_peer s a = None" "monitor_traffic e a True = 0" "os_zalloc_ok e 0"
  shows "(\<exists>p. tdls_auto_find_peer (tdls_auto_peer_connected e s a) a = Some p
              \<and> incoming_peer p \<and> connected p)
    \<and> peers (tdls_auto_peer_disconnected e' (tdls_auto_peer_connected e s a) a) = peers s
    \<and> peer_count (tdls_auto_peer_disconnected e' (tdls_auto_peer_connected e s a) a) = peer_count s
    \<and> conn_peer_count (tdls_auto_peer_disconnected e' (tdls_auto_peer_connected e s a) a)
        = conn_peer_count s
    \<and> calls (tdls_auto_peer_disconnected e' (tdls_auto_peer_connected e s a) a)
        = calls s @ [Monitor_traffic a False, Monitor_traffic a True, Monitor_traffic a False]
    \<and> timeouts (tdls_auto_peer_disconnected e' (tdls_auto_peer_connected e s a) a)
          Fast_connect_timeout
        = (if peer_count s = 0 then None
           else Some (1000 * tdls_auto_fast_connect_period (extn s)))
    \<and> calls_for a (tdls_auto_fast_connect_timeout e''
         (tdls_auto_peer_disconnected e' (tdls_auto_peer_connected e s a) a))
        = calls_for a (tdls_auto_peer_disconnected e' (tdls_auto_peer_connected e s a) a)"
proof -
  let ?P = "tdls_auto_get_peer_data_rate e ((zeroed_peer a)\<lparr>incoming_peer := True, connected := True\<rparr>)"
  let ?s1 = "tdls_auto_peer_connected e s a"
  let ?s1' = "peer_update a (\<lambda>q. q\<lparr>connected := False\<rparr>) ?s1"
  let ?s2 = "tdls_auto_peer_disconnected e' ?s1 a"
  note cu = connected_unknown [OF assms]
  have aP: "addr ?P = a" "incoming_peer ?P" "connected ?P"
    by (simp_all add: zeroed_peer_def)
  have f1: "tdls_auto_find_peer ?s1 a = Some ?P"
    by (simp add: tdls_auto_find_peer_def cu(1) aP)
  have f1': "tdls_auto_find_peer ?s1' a = Some (?P\<lparr>connected := False\<rparr>)"
    by (simp add: find_peer_update_same f1)
  have free: "peers (tdls_auto_peer_free ?s1' a) = peers s"
    "peer_count (tdls_auto_peer_free ?s1' a) = peer_count s"
    "conn_peer_count (tdls_auto_peer_free ?s1' a) = conn_peer_count s + 1"
    "calls (tdls_auto_peer_free ?s1' a)
       = calls s @ [Monitor_traffic a False, Monitor_traffic a True, Monitor_traffic a False]"
    "timeouts (tdls_auto_peer_free ?s1' a) Fast_connect_timeout
       = Some (1000 * tdls_auto_fast_connect_period (extn s))"
    by (simp_all add: tdls_auto_peer_free_def Let_def emit_def peer_update_def cu aP)
  have s2: "?s2 = (tdls_auto_mode_stop e' ?s1' a)
       \<lparr>conn_peer_count := conn_peer_count (tdls_auto_mode_stop e' ?s1' a) - 1\<rparr>"
    by (rule disconnected_incoming [OF f1 aP(2)])
  have stop: "tdls_auto_mode_stop e' ?s1' a =
     (if peer_count (tdls_auto_peer_free ?s1' a) = 0
      then tdls_auto_cancel_timer (tdls_auto_cancel_timer (tdls_auto_peer_free ?s1' a) Fast_connect_timeout)
             Slow_connect_timeout
      else tdls_auto_peer_free ?s1' a)"
    by (rule stop_not_connected [OF f1']) simp
  have r: "peers ?s2 = peers s" "peer_count ?s2 = peer_count s"
    "conn_peer_count ?s2 = conn_peer_count s"
    "calls ?s2 = calls s @ [Monitor_traffic a False, Monitor_traffic a True, Monitor_traffic a False]"
    "timeouts ?s2 Fast_connect_timeout
       = (if peer_count s = 0 then None
          else Some (1000 * tdls_auto_fast_connect_period (extn s)))"
    by (simp_all add: s2 stop free tdls_auto_cancel_timer_def)
  have "tdls_auto_find_peer ?s2 a = None"
    using assms(1) by (simp add: tdls_auto_find_peer_def r(1))
  then have "peer_view a (tdls_auto_fast_connect_timeout e'' ?s2) = peer_view a ?s2"
    by (rule fast_tick_untracked)
  then have "calls_for a (tdls_auto_fast_connect_timeout e'' ?s2) = calls_for a ?s2"
    by (simp add: peer_view_def)
  with f1 aP r show ?thesis by simp
qed

theorem C9_incoming_peer_round_trip_witness:
  "tdls_auto_find_peer started_ctx 2 = None
   \<and> map incoming_peer (peers (tdls_auto_peer_connected quiet_driver started_ctx 2)) = [True, False]
   \<and> peers (tdls_auto_peer_disconnected quiet_driver
        (tdls_auto_peer_connected quiet_driver started_ctx 2) 2) = peers started_ctx
   \<and> peer_count (tdls_auto_peer_disconnected quiet_driver
        (tdls_auto_peer_connected quiet_driver started_ctx 2) 2) = 1
   \<and> conn_peer_count (tdls_auto_peer_disconnected quiet_driver
        (tdls_auto_peer_connected quiet_driver started_ctx 2) 2) = 0
   \<and> calls_for 2 (tdls_auto_fast_connect_timeout good_driver
        (tdls_auto_peer_disconnected quiet_driver
          (tdls_auto_peer_connected quiet_driver started_ctx 2) 2))
     = [Monitor_traffic 2 False, Monitor_traffic 2 True, Monitor_traffic 2 False]"
  using C9_incoming_peer_round_trip [of started_ctx 2 quiet_driver quiet_driver good_driver]
  by (simp add: eval_defs calls_for_def)

section \<open>The RSSI teardown handler\<close>




section \<open>From the fast cycle to the slow cycle\<close>

text \<open>
  C10. The claim: after 20 firings of the fast-connect handler a peer created by
  \<open>start\<close> has \<open>fast_attempts = 21\<close>. Each firing adds one while the value is at most
  20, and \<open>start\<close> leaves 0: after 20 firings the peer of \<open>started_ctx\<close> has 20.
\<close>

theorem C10_twenty_firings:
  "(\<exists>q. tdls_auto_find_peer (fast_ticks (replicate 20 good_driver) started_ctx) 1 = Some q
          \<and> fast_attempts q = 20)
   \<and> \<not> (\<exists>q. tdls_auto_find_peer (fast_ticks (replicate 20 good_driver) started_ctx) 1 = Some q
          \<and> fast_attempts q = 21)"
  using fast_ticks_attempts [of started_ctx 1 "zeroed_peer 1" "replicate 20 good_driver"]
  by (auto simp: started_ctx_facts)

text \<open>
  C10, amended. For a peer with \<open>fast_attempts = 0\<close> (as \<open>start\<close> leaves it) that
  stays disconnected, in a registry with one peer per address: after \<open>n\<close> firings of the
  fast-connect handler \<open>fast_attempts\<close> is \<open>min n 21\<close>, so it is 21 after 21 firings
  and stays 21. The next firing of the fast-connect handler sends a discovery to the peer
  if and only if \<open>n \<le> 20\<close> and the rate it samples is at least
  \<open>data_connect_threshold\<close>: the 21st firing still sends one, no later firing does. A
  firing of the slow-connect handler sends a discovery to the peer if and only if
  \<open>n \<ge> 21\<close> and the rate it samples is at least the threshold.
\<close>

theorem C10_fast_to_slow:
  assumes "addrs_distinct s" "tdls_auto_find_peer s d = Some p" "\<not> connected p"
    and "fast_attempts p = 0"
  shows "\<exists>q. tdls_auto_find_peer (fast_ticks es s) d = Some q \<and> \<not> connected q
     \<and> fast_attempts q = min (int (length es)) 21
     \<and> (\<forall>e. calls_for d (tdls_auto_fast_connect_timeout e (fast_ticks es s)) =
            calls_for d (fast_ticks es s) @
            (if length es \<le> 20
                \<and> tdls_auto_data_connect_threshold (extn s)
                    \<le> data_rate (tdls_auto_get_peer_data_rate e
                                   (q\<lparr>fast_attempts := fast_attempts q + 1\<rparr>))
             then [Send_discovery d] else []))
     \<and> (\<forall>e. calls_for d (tdls_auto_slow_connect_timeout e (fast_ticks es s)) =
            calls_for d (fast_ticks es s) @
            (if 21 \<le> length es
                \<and> tdls_auto_data_connect_threshold (extn s)
                    \<le> data_rate (tdls_auto_get_peer_data_rate e q)
             then [Send_discovery d] else []))"
proof -
  from fast_ticks_attempts [OF assms(1-3), of es] assms(4)
  obtain q where q: "tdls_auto_find_peer (fast_ticks es s) d = Some q" "\<not> connected q"
      "fast_attempts q = min (int (length es)) 21"
      "addrs_distinct (fast_ticks es s)" "extn (fast_ticks es s) = extn s"
    by auto
  have fa: "TDLS_AUTO_MAX_FAST_CONN_ATTEMPTS < fast_attempts q \<longleftrightarrow> 21 \<le> length es"
      "fast_attempts q \<le> TDLS_AUTO_MAX_FAST_CONN_ATTEMPTS \<longleftrightarrow> length es \<le> 20"
    using q(3) by (auto simp: TDLS_AUTO_MAX_FAST_CONN_ATTEMPTS_def)
  have "calls_for d (tdls_auto_fast_connect_timeout e (fast_ticks es s)) =
            calls_for d (fast_ticks es s) @
            (if length es \<le> 20
                \<and> tdls_auto_data_connect_threshold (extn s)
                    \<le> data_rate (tdls_auto_get_peer_data_rate e
                                   (q\<lparr>fast_attempts := fast_attempts q + 1\<rparr>))
             then [Send_discovery d] else [])" for e
    using fast_tick_view [OF q(4) q(1), of e] q(2) fa q(5)
    by (auto simp: peer_view_def not_le not_less split: if_splits)
  moreover have "calls_for d (tdls_auto_slow_connect_timeout e (fast_ticks es s)) =
            calls_for d (fast_ticks es s) @
            (if 21 \<le> length es
                \<and> tdls_auto_data_connect_threshold (extn s)
                    \<le> data_rate (tdls_auto_get_peer_data_rate e q)
             then [Send_discovery d] else [])" for e
    using slow_tick_view [OF q(4) q(1), of e] q(2) fa q(5)
    by (auto simp: peer_view_def not_le not_less split: if_splits)
  ultimately show ?thesis
    using q(1-3) by blast
qed

theorem C10_fast_to_slow_witness:
  "\<exists>q. tdls_auto_find_peer (fast_ticks (replicate 21 good_driver) started_ctx) 1 = Some q
       \<and> \<not> connected q \<and> fast_attempts q = 21
       \<and> calls_for 1 (tdls_auto_fast_connect_timeout good_driver
            (fast_ticks (replicate 21 good_driver) started_ctx))
         = calls_for 1 (fast_ticks (replicate 21 good_driver) started_ctx)"
  using C10_fast_to_slow [of started_ctx 1 "zeroed_peer 1" "replicate 21 good_driver"]
  by (simp add: started_ctx_facts) blast

end
